theory Spec2Isabelle
  imports Main "HOL-Library.Word"
begin

section \<open>JavaScript values used by the pages\<close>

text \<open>
  A JavaScript string is a sequence of UTF-16 code units.  String literals of the source
  are ASCII and are written \<open>lit ''...''\<close>.
\<close>

type_synonym jsstr = "16 word list"

definition lit :: "string \<Rightarrow> jsstr" where
  "lit s = map (\<lambda>c. of_nat (of_char c)) s"

text \<open>
  White space and line terminators of ECMAScript: the code units that
  \<^verbatim>\<open>String.prototype.trim\<close> removes and that \<^verbatim>\<open>parseInt\<close> skips at the start.
\<close>

definition is_ws :: "16 word \<Rightarrow> bool" where
  "is_ws c = (c = 0x9 \<or> c = 0xA \<or> c = 0xB \<or> c = 0xC \<or> c = 0xD \<or> c = 0x20 \<or> c = 0xA0
     \<or> c = 0x1680 \<or> (0x2000 \<le> c \<and> c \<le> 0x200A) \<or> c = 0x2028 \<or> c = 0x2029
     \<or> c = 0x202F \<or> c = 0x205F \<or> c = 0x3000 \<or> c = 0xFEFF)"

definition trim :: "jsstr \<Rightarrow> jsstr" where
  "trim s = rev (dropWhile is_ws (rev (dropWhile is_ws s)))"

subsection \<open>Numbers\<close>

text \<open>
  A JavaScript number is an IEEE double.  The pages meet integer values, the two
  infinities and NaN only.  A \<open>number\<close> is a double that is not NaN: an integer value
  (\<open>Num\<close>, the value itself, with \<open>-0\<close> and \<open>+0\<close> both \<open>Num 0\<close>) or an infinity.  NaN
  occurs as the result of \<^verbatim>\<open>parseInt\<close> only, where it is \<open>None\<close>, and \<^verbatim>\<open>||\<close> removes it
  before anything is stored.  The order is that of \<^verbatim>\<open><\<close> and \<^verbatim>\<open>Math.max\<close>.
\<close>

datatype number = Num int | PosInf | NegInf

instantiation number :: one
begin

definition one_number :: number where
  "one_number = Num 1"

instance ..

end

instantiation number :: linorder
begin

fun less_eq_number :: "number \<Rightarrow> number \<Rightarrow> bool" where
  "less_eq_number NegInf y = True"
| "less_eq_number x PosInf = True"
| "less_eq_number (Num a) (Num b) = (a \<le> b)"
| "less_eq_number x y = False"

definition less_number :: "number \<Rightarrow> number \<Rightarrow> bool" where
  "less_number x y = (x \<le> y \<and> \<not> y \<le> x)"

instance
proof
  fix x y z :: number
  show "(x < y) = (x \<le> y \<and> \<not> y \<le> x)"
    by (simp add: less_number_def)
  show "x \<le> x"
    by (cases x) simp_all
  show "x \<le> y \<Longrightarrow> y \<le> z \<Longrightarrow> x \<le> z"
    by (cases x; cases y; cases z) simp_all
  show "x \<le> y \<Longrightarrow> y \<le> x \<Longrightarrow> x = y"
    by (cases x; cases y) simp_all
  show "x \<le> y \<or> y \<le> x"
    by (cases x; cases y) auto
qed

end

text \<open>
  The double nearest to a natural number, ties to the even significand; \<open>None\<close> when the
  nearest double is infinite.  \<open>bits n\<close> is the length of \<open>n\<close> in binary.  Natural
  numbers that may be large are of type \<open>int\<close> throughout.
\<close>

function bits :: "int \<Rightarrow> nat" where
  "bits n = (if n \<le> 0 then 0 else Suc (bits (n div 2)))"
  by pat_completeness auto
termination
  by (relation "measure nat") auto

definition round_double :: "int \<Rightarrow> int option" where
  "round_double n =
     (if n < 2 ^ 53 then Some n
      else let k = bits n - 53;
               q = n div 2 ^ k;
               r = n mod 2 ^ k;
               q' = (if 2 ^ (k - 1) < r \<or> (r = 2 ^ (k - 1) \<and> odd q) then q + 1 else q)
           in if 2 ^ 1024 \<le> q' * 2 ^ k then None else Some (q' * 2 ^ k))"

definition to_number :: "bool \<Rightarrow> int \<Rightarrow> number" where
  "to_number neg m =
     (case round_double m of
        None \<Rightarrow> if neg then NegInf else PosInf
      | Some v \<Rightarrow> Num (if neg then - v else v))"

text \<open>
  \<^verbatim>\<open>parseInt(string)\<close> with no radix argument: white space is skipped, a sign is read,
  a prefix \<^verbatim>\<open>0x\<close> selects radix 16, the longest run of digits is read, and its value is
  rounded to a double.  The result is \<open>None\<close> for NaN.  (For more than 20 decimal digits
  ECMAScript lets an engine round an approximation; the engines in use round the exact
  value, as here.)
\<close>

definition digit_val :: "16 word \<Rightarrow> nat option" where
  "digit_val c =
     (if 0x30 \<le> c \<and> c \<le> 0x39 then Some (unat c - 0x30)
      else if 0x61 \<le> c \<and> c \<le> 0x7A then Some (unat c - 0x61 + 10)
      else if 0x41 \<le> c \<and> c \<le> 0x5A then Some (unat c - 0x41 + 10)
      else None)"

definition is_digit :: "nat \<Rightarrow> 16 word \<Rightarrow> bool" where
  "is_digit R c = (case digit_val c of None \<Rightarrow> False | Some d \<Rightarrow> d < R)"

definition digits_value :: "nat \<Rightarrow> jsstr \<Rightarrow> int" where
  "digits_value R Z = foldl (\<lambda>acc c. acc * int R + int (the (digit_val c))) 0 Z"

fun strip_sign :: "jsstr \<Rightarrow> bool \<times> jsstr" where
  "strip_sign [] = (False, [])"
| "strip_sign (c # cs) =
     (if c = 0x2D then (True, cs) else if c = 0x2B then (False, cs) else (False, c # cs))"

fun strip_prefix :: "jsstr \<Rightarrow> nat \<times> jsstr" where
  "strip_prefix (a # b # cs) =
     (if a = 0x30 \<and> (b = 0x78 \<or> b = 0x58) then (16, cs) else (10, a # b # cs))"
| "strip_prefix cs = (10, cs)"

definition parseInt :: "jsstr \<Rightarrow> number option" where
  "parseInt s =
     (let (neg, S) = strip_sign (dropWhile is_ws s);
          (R, S') = strip_prefix S;
          Z = takeWhile (is_digit R) S'
      in if Z = [] then None else Some (to_number neg (digits_value R Z)))"

text \<open>\<^verbatim>\<open>x || d\<close> on a number \<open>x\<close>: NaN and zero are falsy.\<close>

definition num_or :: "number option \<Rightarrow> number \<Rightarrow> number" where
  "num_or x d = (case x of None \<Rightarrow> d | Some n \<Rightarrow> if n = Num 0 then d else n)"

text \<open>\<^verbatim>\<open>x || d\<close> on a string or null/undefined \<open>x\<close>: absent and empty are falsy.\<close>

definition str_or :: "jsstr option \<Rightarrow> jsstr \<Rightarrow> jsstr" where
  "str_or x d = (case x of None \<Rightarrow> d | Some s \<Rightarrow> if s = [] then d else s)"

text \<open>
  \<^verbatim>\<open>Number.prototype.toString()\<close>.  For a positive value \<open>x\<close> ECMAScript takes the
  integers \<open>k\<close>, \<open>s\<close> and \<open>n\<close> with \<open>s\<close> of \<open>k\<close> digits and \<open>s * 10^(n - k)\<close> rounding to
  \<open>x\<close>, with \<open>k\<close> as small as possible and then \<open>s * 10^(n - k)\<close> as near to \<open>x\<close> as
  possible (the even \<open>s\<close> of two equally near).  Up to \<open>n = 21\<close> it prints the digits of
  \<open>s\<close> and \<open>n - k\<close> zeros, beyond that the exponent form.  \<open>dec\<close> prints a natural number
  in decimal.
\<close>

function dec :: "int \<Rightarrow> jsstr" where
  "dec n = (if n < 10 then [of_int (0x30 + n)] else dec (n div 10) @ [of_int (0x30 + n mod 10)])"
  by pat_completeness auto
termination
  by (relation "measure nat") auto

definition candidates :: "int \<Rightarrow> nat \<Rightarrow> nat \<Rightarrow> (int \<times> nat) list" where
  \<comment> \<open>the pairs \<open>(s, n)\<close> for a given \<open>k\<close> and \<open>n\<close>: only the two \<open>s\<close> next to \<open>x\<close> can be nearest\<close>
  "candidates x k n =
     (if n < k then []
      else map (\<lambda>s. (s, n))
             (filter (\<lambda>s. 10 ^ (k - 1) \<le> s \<and> s < 10 ^ k \<and>
                          round_double (s * 10 ^ (n - k)) = Some x)
                [x div 10 ^ (n - k), x div 10 ^ (n - k) + 1]))"

definition nearer :: "int \<Rightarrow> nat \<Rightarrow> int \<times> nat \<Rightarrow> int \<times> nat \<Rightarrow> int \<times> nat" where
  "nearer x k a b =
     (let da = \<bar>fst a * 10 ^ (snd a - k) - x\<bar>;
          db = \<bar>fst b * 10 ^ (snd b - k) - x\<bar>
      in if db < da \<or> (db = da \<and> even (fst b) \<and> odd (fst a)) then b else a)"

definition shortest :: "int \<Rightarrow> (nat \<times> int \<times> nat) option" where
  \<comment> \<open>\<open>(k, s, n)\<close>; a double needs at most 17 digits\<close>
  "shortest x =
     (let d = length (dec x);
          found = (\<lambda>k. candidates x k d @ candidates x k (d + 1))
      in case List.find (\<lambda>k. found k \<noteq> []) [1..<18] of
           None \<Rightarrow> None
         | Some k \<Rightarrow> Some (k, foldl (nearer x k) (hd (found k)) (tl (found k))))"

definition exponent_form :: "jsstr \<Rightarrow> nat \<Rightarrow> jsstr" where
  "exponent_form ds e =
     (case ds of
        [] \<Rightarrow> []
      | d # rest \<Rightarrow> (if rest = [] then [d] else d # 0x2E # rest) @ lit ''e+'' @ dec (int e))"

definition positive_text :: "int \<Rightarrow> jsstr" where
  "positive_text x =
     (case shortest x of
        None \<Rightarrow> dec x
      | Some (k, s, n) \<Rightarrow>
          if n \<le> 21 then dec s @ replicate (n - k) 0x30 else exponent_form (dec s) (n - 1))"

definition toString :: "number \<Rightarrow> jsstr" where
  "toString x =
     (case x of
        PosInf \<Rightarrow> lit ''Infinity''
      | NegInf \<Rightarrow> lit ''-Infinity''
      | Num n \<Rightarrow>
          if n = 0 then lit ''0''
          else if n < 0 then 0x2D # positive_text (- n)
          else positive_text n)"

subsection \<open>JSON values\<close>

text \<open>
  The value that \<^verbatim>\<open>res.json()\<close> resolves to.  The page looks at a number only through
  its truthiness and its string conversion, so a number is kept as these two
  observations.  An object is its list of members in source order.
\<close>

datatype json =
    JNull
  | JBool bool
  | JNum (is_zero: bool) (num_text: jsstr)
  | JStr jsstr
  | JArr "json list"
  | JObj "(jsstr \<times> json) list"

text \<open>Truthiness, as tested by \<^verbatim>\<open>||\<close>.\<close>

fun truthy :: "json \<Rightarrow> bool" where
  "truthy JNull = False"
| "truthy (JBool b) = b"
| "truthy (JNum z t) = (\<not> z)"
| "truthy (JStr s) = (s \<noteq> [])"
| "truthy (JArr xs) = True"
| "truthy (JObj kvs) = True"

text \<open>
  The property read \<^verbatim>\<open>json.error\<close>: a TypeError on null (\<open>Inl ()\<close>), otherwise the
  member (\<open>None\<close> for undefined).  \<^verbatim>\<open>JSON.parse\<close> keeps the last of several members
  with one name.
\<close>

fun get_error :: "json \<Rightarrow> unit + json option" where
  "get_error JNull = Inl ()"
| "get_error (JObj kvs) = Inr (map_of (rev kvs) (lit ''error''))"
| "get_error j = Inr None"

text \<open>
  The string conversion that \<^verbatim>\<open>new Error(x)\<close> applies to its argument; \<open>None\<close> when
  the conversion throws a TypeError (an object whose own member \<^verbatim>\<open>toString\<close> hides
  the inherited method cannot be converted).  An array is joined with commas and shows
  null as the empty string.
\<close>

fun join :: "jsstr list \<Rightarrow> jsstr" where
  "join [] = []"
| "join [s] = s"
| "join (s # ss) = s @ 0x2C # join ss"

fun to_str :: "json \<Rightarrow> jsstr option"
  and to_strs :: "json list \<Rightarrow> jsstr list option" where
  "to_str JNull = Some (lit ''null'')"
| "to_str (JBool b) = Some (if b then lit ''true'' else lit ''false'')"
| "to_str (JNum z t) = Some t"
| "to_str (JStr s) = Some s"
| "to_str (JArr xs) = map_option join (to_strs xs)"
| "to_str (JObj kvs) =
     (if lit ''toString'' \<in> fst ` set kvs then None else Some (lit ''[object Object]''))"
| "to_strs [] = Some []"
| "to_strs (x # xs) =
     (case (if x = JNull then Some [] else to_str x) of
        None \<Rightarrow> None
      | Some s \<Rightarrow> (case to_strs xs of None \<Rightarrow> None | Some ss \<Rightarrow> Some (s # ss)))"

subsection \<open>The network\<close>

text \<open>
  A response has a status and a body; \<^verbatim>\<open>res.json()\<close> either resolves to a JSON value
  or rejects with a SyntaxError, whose message the body carries here.
  \<^verbatim>\<open>res.ok\<close> is true for the statuses 200 to 299.
\<close>

datatype body = NotJson jsstr | Json json

record response =
  status :: nat
  body :: body

definition ok :: "response \<Rightarrow> bool" where
  "ok r = (200 \<le> status r \<and> status r \<le> 299)"

text \<open>How the promise of \<^verbatim>\<open>fetch\<close> settles: rejected with an error of the given message,
  or fulfilled with a response.\<close>

datatype outcome = Rejected jsstr | Responded response

text \<open>
  What the page takes from outside the two source files: the file policy
  \<^verbatim>\<open>validateImageFile\<close> of \<^verbatim>\<open>@/lib/utils/storage\<close>, and the messages of the TypeErrors
  that the JavaScript engine throws.
\<close>

record validation =
  valid :: bool
  verror :: "jsstr option"

record jsfile =
  file_name :: jsstr
  file_type :: jsstr
  file_size :: nat

record env =
  validateImageFile :: "jsfile \<Rightarrow> validation"
  null_read_message :: jsstr
  to_primitive_message :: jsstr

section \<open>The plant page\<close>

subsection \<open>Data\<close>

record district =
  district_id :: jsstr
  district_name :: jsstr
  district_state :: jsstr

text \<open>The identity that \<^verbatim>\<open>useAuth\<close> supplies; \<open>ref\<close> is the identity of the object
  itself, which is what a dependency array compares.\<close>

record user =
  ref :: nat
  uid :: jsstr
  displayName :: "jsstr option"
  email :: "jsstr option"

record session =
  user :: "user option"
  loading :: bool

text \<open>
  The state hooks of \<^verbatim>\<open>PlantPageContent\<close>; the field \<open>image_file\<close> is the hook
  \<^verbatim>\<open>image\<close>.  A preview URL is the handle it names, and it is never the empty string.
\<close>

record plant_state =
  image_file :: "jsfile option"
  previewUrl :: "nat option"
  isDragging :: bool
  treeQuantity :: number
  treeName :: jsstr
  selectedDistrict :: "district option"
  error :: "jsstr option"
  success :: "jsstr option"
  submitting :: bool

datatype form_value = Text jsstr | Blob jsfile

type_synonym formdata = "(jsstr \<times> form_value) list"

text \<open>
  What a handler does, in program order: calls of state setters, of the preview
  collaborators, of \<^verbatim>\<open>fetch\<close>, \<^verbatim>\<open>setTimeout\<close> and \<^verbatim>\<open>router.push\<close>.
  \<open>CreateImagePreview h f\<close> is the call \<^verbatim>\<open>createImagePreview(f)\<close> returning handle \<open>h\<close>;
  \<open>SetTimeout path ms\<close> is the timer whose callback pushes \<open>path\<close>.
\<close>

datatype cmd =
    PreventDefault
  | SetImage "jsfile option"
  | SetPreviewUrl "nat option"
  | SetIsDragging bool
  | SetTreeQuantity number
  | SetTreeName jsstr
  | SetSelectedDistrict "district option"
  | SetError "jsstr option"
  | SetSuccess "jsstr option"
  | SetSubmitting bool
  | RevokeImagePreview nat
  | CreateImagePreview nat jsfile
  | Fetch jsstr jsstr formdata
  | SetTimeout jsstr nat
  | RouterPush jsstr

fun apply_cmd :: "cmd \<Rightarrow> plant_state \<Rightarrow> plant_state" where
  "apply_cmd (SetImage v) s = s\<lparr>image_file := v\<rparr>"
| "apply_cmd (SetPreviewUrl v) s = s\<lparr>previewUrl := v\<rparr>"
| "apply_cmd (SetIsDragging v) s = s\<lparr>isDragging := v\<rparr>"
| "apply_cmd (SetTreeQuantity v) s = s\<lparr>treeQuantity := v\<rparr>"
| "apply_cmd (SetTreeName v) s = s\<lparr>treeName := v\<rparr>"
| "apply_cmd (SetSelectedDistrict v) s = s\<lparr>selectedDistrict := v\<rparr>"
| "apply_cmd (SetError v) s = s\<lparr>error := v\<rparr>"
| "apply_cmd (SetSuccess v) s = s\<lparr>success := v\<rparr>"
| "apply_cmd (SetSubmitting v) s = s\<lparr>submitting := v\<rparr>"
| "apply_cmd c s = s"

subsection \<open>Event handlers\<close>

text \<open>
  A handler is a closure of the render that created it: it reads the state of that
  render (\<open>c\<close> below) and issues commands.  Each handler is the list of commands it
  issues, in program order.
\<close>

definition release :: "nat option \<Rightarrow> cmd list" where
  \<comment> \<open>\<^verbatim>\<open>if (previewUrl) revokeImagePreview(previewUrl)\<close>\<close>
  "release u = (case u of None \<Rightarrow> [] | Some h \<Rightarrow> [RevokeImagePreview h])"

definition accept_file :: "plant_state \<Rightarrow> nat \<Rightarrow> jsfile \<Rightarrow> cmd list" where
  \<comment> \<open>the statements of \<^verbatim>\<open>handleImageFile\<close> after the validation guard\<close>
  "accept_file c h f =
     release (previewUrl c) @
     [SetImage (Some f), CreateImagePreview h f, SetPreviewUrl (Some h),
      SetError None, SetSuccess None]"

definition handleImageFile :: "env \<Rightarrow> plant_state \<Rightarrow> nat \<Rightarrow> jsfile \<Rightarrow> cmd list" where
  "handleImageFile E c h f =
     (let validation = validateImageFile E f in
      if \<not> valid validation
      then [SetError (Some (str_or (verror validation) (lit ''Invalid image file'')))]
      else accept_file c h f)"

definition handleImageChange :: "env \<Rightarrow> plant_state \<Rightarrow> nat \<Rightarrow> jsfile list \<Rightarrow> cmd list" where
  "handleImageChange E c h files =
     (case files of [] \<Rightarrow> [] | f # _ \<Rightarrow> handleImageFile E c h f)"

definition handleDragOver :: "cmd list" where
  "handleDragOver = [PreventDefault, SetIsDragging True]"

definition handleDragLeave :: "cmd list" where
  "handleDragLeave = [PreventDefault, SetIsDragging False]"

definition handleDrop :: "env \<Rightarrow> plant_state \<Rightarrow> nat \<Rightarrow> jsfile list \<Rightarrow> cmd list" where
  "handleDrop E c h files =
     [PreventDefault, SetIsDragging False] @
     (case files of [] \<Rightarrow> [] | f # _ \<Rightarrow> handleImageFile E c h f)"

definition onDistrictSelect :: "district \<Rightarrow> cmd list" where
  "onDistrictSelect d = [SetSelectedDistrict (Some d), SetError None]"

definition onQuantityChange :: "jsstr \<Rightarrow> cmd list" where
  \<comment> \<open>\<^verbatim>\<open>setTreeQuantity(Math.max(1, parseInt(e.target.value) || 1))\<close>\<close>
  "onQuantityChange v = [SetTreeQuantity (max 1 (num_or (parseInt v) 1))]"

definition onNameChange :: "jsstr \<Rightarrow> cmd list" where
  "onNameChange v = [SetTreeName v]"

definition formData :: "plant_state \<Rightarrow> user option \<Rightarrow> district \<Rightarrow> jsfile \<Rightarrow> formdata" where
  "formData c u d img =
     [(lit ''districtId'', Text (district_id d)),
      (lit ''districtName'', Text (district_name d)),
      (lit ''state'', Text (district_state d)),
      (lit ''treeName'', Text (trim (treeName c))),
      (lit ''treeQuantity'', Text (toString (treeQuantity c)))] @
     (case u of None \<Rightarrow> []
      | Some v \<Rightarrow>
          (if uid v \<noteq> [] then [(lit ''userId'', Text (uid v))] else []) @
          (case displayName v of None \<Rightarrow> []
           | Some n \<Rightarrow> if n \<noteq> [] then [(lit ''userName'', Text n)] else []) @
          (case email v of None \<Rightarrow> []
           | Some m \<Rightarrow> if m \<noteq> [] then [(lit ''userEmail'', Text m)] else [])) @
     [(lit ''image'', Blob img)]"

text \<open>
  \<^verbatim>\<open>handleSubmit\<close> up to its first \<^verbatim>\<open>await\<close>: the validation pass and, when it passes,
  the request.  The call is suspended afterwards exactly when it has issued the request.
\<close>

definition handleSubmit :: "plant_state \<Rightarrow> user option \<Rightarrow> cmd list" where
  "handleSubmit c u =
     [PreventDefault, SetError None, SetSuccess None] @
     (case selectedDistrict c of
        None \<Rightarrow> [SetError (Some (lit ''Please select a district''))]
      | Some d \<Rightarrow>
          (case image_file c of
             None \<Rightarrow> [SetError (Some (lit ''Please upload a tree photo''))]
           | Some img \<Rightarrow>
               if trim (treeName c) = [] then [SetError (Some (lit ''Please enter the tree name''))]
               else if treeQuantity c < 1
               then [SetError (Some (lit ''Please enter a valid number of trees''))]
               else [SetSubmitting True,
                     Fetch (lit ''/api/plant'') (lit ''POST'') (formData c u d img)]))"

fun is_fetch :: "cmd \<Rightarrow> bool" where
  "is_fetch (Fetch url m b) = True"
| "is_fetch c = False"

text \<open>
  The rest of the \<^verbatim>\<open>try\<close> block, run when the request settles: \<open>Inl m\<close> when an error
  with message \<open>m\<close> is thrown (by the rejected \<^verbatim>\<open>fetch\<close>, by \<^verbatim>\<open>res.json()\<close>, by the
  read of \<^verbatim>\<open>json.error\<close>, by \<^verbatim>\<open>new Error\<close>, or by the \<^verbatim>\<open>throw\<close> itself),
  \<open>Inr\<close> the commands of the success path otherwise.
\<close>

definition thrown_message :: "env \<Rightarrow> json \<Rightarrow> jsstr" where
  \<comment> \<open>the message of what \<^verbatim>\<open>throw new Error(json.error || 'Failed to submit contribution')\<close> throws\<close>
  "thrown_message E j =
     (case get_error j of
        Inl _ \<Rightarrow> null_read_message E
      | Inr v \<Rightarrow>
          (case to_str (case v of None \<Rightarrow> JStr (lit ''Failed to submit contribution'')
                        | Some x \<Rightarrow> if truthy x then x
                                    else JStr (lit ''Failed to submit contribution'')) of
             None \<Rightarrow> to_primitive_message E
           | Some m \<Rightarrow> m))"

definition on_success :: "plant_state \<Rightarrow> cmd list" where
  \<comment> \<open>the statements after the \<^verbatim>\<open>if (!res.ok)\<close> test, to the end of the \<^verbatim>\<open>try\<close> block\<close>
  "on_success c =
     [SetSuccess (Some (lit ''Tree contribution submitted successfully!'')), SetImage None] @
     release (previewUrl c) @
     [SetPreviewUrl None, SetTreeName [], SetTreeQuantity 1, SetSelectedDistrict None,
      SetTimeout (lit ''/contribution'') 2000]"

definition try_rest :: "env \<Rightarrow> plant_state \<Rightarrow> outcome \<Rightarrow> jsstr + cmd list" where
  "try_rest E c out =
     (case out of
        Rejected m \<Rightarrow> Inl m
      | Responded res \<Rightarrow>
          (case body res of
             NotJson m \<Rightarrow> Inl m
           | Json j \<Rightarrow> if \<not> ok res then Inl (thrown_message E j) else Inr (on_success c)))"

definition handleSubmit_settled :: "env \<Rightarrow> plant_state \<Rightarrow> outcome \<Rightarrow> cmd list" where
  "handleSubmit_settled E c out =
     (case try_rest E c out of
        Inr cs \<Rightarrow> cs
      | Inl m \<Rightarrow> [SetError (Some (str_or (Some m) (lit ''Failed to submit contribution'')))])
     @ [SetSubmitting False]"

subsection \<open>Rendering\<close>

record form_view =
  selected_caption :: "(jsstr \<times> jsstr) option"
  quantity_value :: number
  name_value :: jsstr
  drop_zone_active :: bool
  preview_src :: "nat option"
  error_banner :: "jsstr option"
  success_banner :: "jsstr option"
  submit_disabled :: bool
  submit_label :: jsstr

datatype view = Spinner | Nothing | Form form_view

definition banner :: "jsstr option \<Rightarrow> jsstr option" where
  \<comment> \<open>\<^verbatim>\<open>{error && <div>{error}</div>}\<close>\<close>
  "banner m = (case m of None \<Rightarrow> None | Some t \<Rightarrow> if t = [] then None else Some t)"

definition render :: "session \<Rightarrow> plant_state \<Rightarrow> view" where
  "render a s =
     (if loading a then Spinner
      else if user a = None then Nothing
      else Form \<lparr>
        selected_caption =
          map_option (\<lambda>d. (district_name d, district_state d)) (selectedDistrict s),
        quantity_value = treeQuantity s,
        name_value = treeName s,
        drop_zone_active = isDragging s,
        preview_src = previewUrl s,
        error_banner = banner (error s),
        success_banner = banner (success s),
        submit_disabled = submitting s,
        submit_label = (if submitting s then lit ''Submitting...'' else lit ''Submit'')\<rparr>)"

subsection \<open>The mounted component\<close>

text \<open>
  The component instance with what it has done to the outside so far.
  \<open>trace\<close> is every command issued, oldest first; \<open>pending\<close> holds, for each
  \<^verbatim>\<open>handleSubmit\<close> call suspended at its \<^verbatim>\<open>await\<close>, the state its closure captured;
  \<open>timers\<close> holds the paths that the timers not yet fired will push; \<open>fresh\<close> is the
  next handle that \<^verbatim>\<open>createImagePreview\<close> returns.
\<close>

record page =
  st :: plant_state
  auth :: session
  mounted :: bool
  trace :: "cmd list"
  pending :: "plant_state list"
  timers :: "jsstr list"
  fresh :: nat

text \<open>Running one command: a state setter of an unmounted component changes nothing.\<close>

definition exec1 :: "page \<Rightarrow> cmd \<Rightarrow> page" where
  "exec1 p c =
     p\<lparr>st := (if mounted p then apply_cmd c (st p) else st p),
       trace := trace p @ [c],
       timers := (case c of SetTimeout path ms \<Rightarrow> timers p @ [path] | _ \<Rightarrow> timers p),
       fresh := (case c of CreateImagePreview h f \<Rightarrow> max (fresh p) (Suc h) | _ \<Rightarrow> fresh p)\<rparr>"

definition exec :: "cmd list \<Rightarrow> page \<Rightarrow> page" where
  "exec cs p = foldl exec1 p cs"

text \<open>
  The two effects.  The first runs after mount and after every render in which
  \<^verbatim>\<open>user\<close> or \<^verbatim>\<open>authLoading\<close> has changed; the cleanup of the second runs after every
  render in which \<^verbatim>\<open>previewUrl\<close> has changed, with the value of the render before, and
  at unmount.
\<close>

definition redirect_effect :: "session \<Rightarrow> cmd list" where
  "redirect_effect a =
     (if \<not> loading a \<and> user a = None then [RouterPush (lit ''/?auth_required=true'')] else [])"

definition same_deps :: "session \<Rightarrow> session \<Rightarrow> bool" where
  "same_deps a b = (map_option ref (user a) = map_option ref (user b) \<and> loading a = loading b)"

definition effects :: "plant_state \<Rightarrow> session \<Rightarrow> page \<Rightarrow> cmd list" where
  "effects s0 a0 p =
     (if \<not> mounted p then []
      else (if previewUrl (st p) \<noteq> previewUrl s0 then release (previewUrl s0) else []) @
           (if \<not> same_deps a0 (auth p) then redirect_effect (auth p) else []))"

definition commit :: "plant_state \<Rightarrow> session \<Rightarrow> page \<Rightarrow> page" where
  "commit s0 a0 p = exec (effects s0 a0 p) p"

definition initial :: plant_state where
  "initial = \<lparr>image_file = None, previewUrl = None, isDragging = False, treeQuantity = 1,
     treeName = [], selectedDistrict = None, error = None, success = None,
     submitting = False\<rparr>"

definition mount :: "session \<Rightarrow> page" where
  "mount a = exec (redirect_effect a)
     \<lparr>st = initial, auth = a, mounted = True, trace = [], pending = [], timers = [],
      fresh = 0\<rparr>"

datatype event =
    FilesPicked "jsfile list"
  | DragOver
  | DragLeave
  | Dropped "jsfile list"
  | DistrictPicked district
  | QuantityTyped jsstr
  | NameTyped jsstr
  | SubmitPressed
  | Settled outcome
  | TimerFired
  | AuthChanged session
  | Unmount

text \<open>The form takes events only while it is rendered; the submit control only while it
  is not disabled.\<close>

definition form_shown :: "page \<Rightarrow> bool" where
  "form_shown p = (case render (auth p) (st p) of Form v \<Rightarrow> mounted p | _ \<Rightarrow> False)"

definition submit_enabled :: "page \<Rightarrow> bool" where
  "submit_enabled p =
     (case render (auth p) (st p) of Form v \<Rightarrow> mounted p \<and> \<not> submit_disabled v | _ \<Rightarrow> False)"

fun handler :: "env \<Rightarrow> event \<Rightarrow> page \<Rightarrow> cmd list" where
  "handler E (FilesPicked fs) p =
     (if form_shown p then handleImageChange E (st p) (fresh p) fs else [])"
| "handler E DragOver p = (if form_shown p then handleDragOver else [])"
| "handler E DragLeave p = (if form_shown p then handleDragLeave else [])"
| "handler E (Dropped fs) p = (if form_shown p then handleDrop E (st p) (fresh p) fs else [])"
| "handler E (DistrictPicked d) p = (if form_shown p then onDistrictSelect d else [])"
| "handler E (QuantityTyped v) p = (if form_shown p then onQuantityChange v else [])"
| "handler E (NameTyped v) p = (if form_shown p then onNameChange v else [])"
| "handler E SubmitPressed p =
     (if submit_enabled p then handleSubmit (st p) (user (auth p)) else [])"
| "handler E (Settled out) p =
     (case pending p of [] \<Rightarrow> [] | c # _ \<Rightarrow> handleSubmit_settled E c out)"
| "handler E TimerFired p = (case timers p of [] \<Rightarrow> [] | path # _ \<Rightarrow> [RouterPush path])"
| "handler E (AuthChanged a) p = []"
| "handler E Unmount p = (if mounted p then release (previewUrl (st p)) else [])"

text \<open>
  What the event changes besides running its handler: a submit that issued the request
  leaves its call suspended, a settled request resumes the oldest suspended call, a fired
  timer is gone, the session is replaced, the component is unmounted.
\<close>

definition track :: "event \<Rightarrow> page \<Rightarrow> cmd list \<Rightarrow> page \<Rightarrow> page" where
  "track ev p cs q =
     (case ev of
        SubmitPressed \<Rightarrow> if list_ex is_fetch cs then q\<lparr>pending := pending q @ [st p]\<rparr> else q
      | Settled out \<Rightarrow> q\<lparr>pending := tl (pending q)\<rparr>
      | TimerFired \<Rightarrow> q\<lparr>timers := tl (timers q)\<rparr>
      | AuthChanged a \<Rightarrow> if mounted q then q\<lparr>auth := a\<rparr> else q
      | Unmount \<Rightarrow> q\<lparr>mounted := False\<rparr>
      | _ \<Rightarrow> q)"

text \<open>One event: its handler runs on the state of the last render, then the component
  renders again and the effects whose dependencies changed run.\<close>

definition step :: "env \<Rightarrow> event \<Rightarrow> page \<Rightarrow> page" where
  "step E ev p =
     commit (st p) (auth p) (track ev p (handler E ev p) (exec (handler E ev p) p))"

fun run :: "env \<Rightarrow> event list \<Rightarrow> page \<Rightarrow> page" where
  "run E [] p = p"
| "run E (ev # evs) p = run E evs (step E ev p)"

subsection \<open>Observations on a trace\<close>

text \<open>
  Modelled from the spec: \<^verbatim>\<open>createImagePreview\<close> and \<^verbatim>\<open>revokeImagePreview\<close> of
  \<^verbatim>\<open>@/lib/utils/storage\<close>, which is not among the source files.  Creating a preview
  makes a new handle live; releasing a handle frees it and is harmless when the handle is
  not live.  The list below holds the handles created and not yet released.
\<close>

fun live_step :: "nat list \<Rightarrow> cmd \<Rightarrow> nat list" where
  "live_step L (CreateImagePreview h f) = h # L"
| "live_step L (RevokeImagePreview h) = removeAll h L"
| "live_step L c = L"

definition live :: "cmd list \<Rightarrow> nat list" where
  "live tr = foldl live_step [] tr"

text \<open>At most one handle is live after every command of the trace, starting from \<open>L\<close>.\<close>

fun single_from :: "nat list \<Rightarrow> cmd list \<Rightarrow> bool" where
  "single_from L [] = (length L \<le> 1)"
| "single_from L (c # cs) = (length L \<le> 1 \<and> single_from (live_step L c) cs)"

definition single_live :: "cmd list \<Rightarrow> bool" where
  "single_live tr = single_from [] tr"

definition fetches :: "cmd list \<Rightarrow> cmd list" where
  "fetches tr = filter is_fetch tr"

fun is_create :: "cmd \<Rightarrow> bool" where
  "is_create (CreateImagePreview h f) = True"
| "is_create c = False"

fun is_timeout :: "cmd \<Rightarrow> bool" where
  "is_timeout (SetTimeout path ms) = True"
| "is_timeout c = False"

text \<open>Commands that neither create a preview nor store a handle in the state.\<close>

fun keeps_preview :: "cmd \<Rightarrow> bool" where
  "keeps_preview (CreateImagePreview h f) = False"
| "keeps_preview (SetPreviewUrl (Some h)) = False"
| "keeps_preview c = True"

section \<open>The landing page\<close>

text \<open>
  \<^verbatim>\<open>HomeContent\<close>: two state hooks, the session, the search parameters of the URL
  (the object that \<^verbatim>\<open>useSearchParams\<close> returns, or null: its name/value pairs in order)
  and three effects.
\<close>

datatype home_cmd =
    SetShowAuthModal bool
  | SetStats json
  | FetchStats
  | Push jsstr
  | ConsoleError

record home =
  showAuthModal :: bool
  stats :: json
  home_auth :: session
  searchParams :: "(jsstr \<times> jsstr) list option"
  home_mounted :: bool
  home_trace :: "home_cmd list"

fun home_exec1 :: "home \<Rightarrow> home_cmd \<Rightarrow> home" where
  "home_exec1 h (SetShowAuthModal b) =
     h\<lparr>showAuthModal := (if home_mounted h then b else showAuthModal h),
       home_trace := home_trace h @ [SetShowAuthModal b]\<rparr>"
| "home_exec1 h (SetStats j) =
     h\<lparr>stats := (if home_mounted h then j else stats h),
       home_trace := home_trace h @ [SetStats j]\<rparr>"
| "home_exec1 h c = h\<lparr>home_trace := home_trace h @ [c]\<rparr>"

definition home_exec :: "home_cmd list \<Rightarrow> home \<Rightarrow> home" where
  "home_exec cs h = foldl home_exec1 h cs"

definition home_redirect_effect :: "session \<Rightarrow> home_cmd list" where
  "home_redirect_effect a =
     (if \<not> loading a \<and> user a \<noteq> None then [Push (lit ''/dashboard'')] else [])"

definition modal_effect :: "(jsstr \<times> jsstr) list option \<Rightarrow> home_cmd list" where
  \<comment> \<open>\<^verbatim>\<open>if (searchParams?.get('auth_required') === 'true') setShowAuthModal(true)\<close>;
      \<^verbatim>\<open>get\<close> returns the first value of the name\<close>
  "modal_effect q =
     (if (case q of None \<Rightarrow> None | Some kvs \<Rightarrow> map_of kvs (lit ''auth_required'')) =
           Some (lit ''true'')
      then [SetShowAuthModal True] else [])"

definition home_mount :: "session \<Rightarrow> (jsstr \<times> jsstr) list option \<Rightarrow> home" where
  "home_mount a q =
     home_exec (home_redirect_effect a @ modal_effect q @ [FetchStats])
       \<lparr>showAuthModal = False,
        stats = JObj [(lit ''totalDistricts'', JNum True (lit ''0'')),
                      (lit ''totalTrees'', JNum True (lit ''0'')),
                      (lit ''totalOxygen'', JNum True (lit ''0''))],
        home_auth = a, searchParams = q, home_mounted = True, home_trace = []\<rparr>"

datatype home_view = HomeSpinner | HomeNothing | Landing bool

definition home_render :: "home \<Rightarrow> home_view" where
  "home_render h =
     (if loading (home_auth h) then HomeSpinner
      else if user (home_auth h) \<noteq> None then HomeNothing
      else Landing (showAuthModal h))"

datatype home_event =
    SignInClicked
  | ModalClosed
  | StatsSettled outcome
  | HomeAuthChanged session
  | QueryChanged "(jsstr \<times> jsstr) list option"

definition fetchStats_settled :: "outcome \<Rightarrow> home_cmd list" where
  "fetchStats_settled out =
     (case out of
        Rejected m \<Rightarrow> [ConsoleError]
      | Responded res \<Rightarrow>
          if ok res then (case body res of NotJson m \<Rightarrow> [ConsoleError] | Json j \<Rightarrow> [SetStats j])
          else [])"

fun home_handler :: "home_event \<Rightarrow> home \<Rightarrow> home_cmd list" where
  "home_handler SignInClicked h =
     (case home_render h of Landing b \<Rightarrow> [SetShowAuthModal True] | _ \<Rightarrow> [])"
| "home_handler ModalClosed h =
     (case home_render h of Landing b \<Rightarrow> if b then [SetShowAuthModal False] else [] | _ \<Rightarrow> [])"
| "home_handler (StatsSettled out) h = fetchStats_settled out"
| "home_handler (HomeAuthChanged a) h = []"
| "home_handler (QueryChanged q) h = []"

text \<open>
  One event, the render that follows it, and the effects whose dependencies changed.
  A change of the query hands the component a new search-parameters object, so the modal
  effect, which depends on that object, runs again after every such change.
\<close>

definition home_step :: "home_event \<Rightarrow> home \<Rightarrow> home" where
  "home_step ev h =
     (if \<not> home_mounted h then h
      else
        let g = home_exec (home_handler ev h) h;
            g' = (case ev of
                    HomeAuthChanged a \<Rightarrow> g\<lparr>home_auth := a\<rparr>
                  | QueryChanged q \<Rightarrow> g\<lparr>searchParams := q\<rparr>
                  | _ \<Rightarrow> g)
        in home_exec
             ((if \<not> same_deps (home_auth h) (home_auth g')
               then home_redirect_effect (home_auth g') else []) @
              (case ev of QueryChanged q \<Rightarrow> modal_effect q | _ \<Rightarrow> [])) g')"

fun home_run :: "home_event list \<Rightarrow> home \<Rightarrow> home" where
  "home_run [] h = h"
| "home_run (ev # evs) h = home_run evs (home_step ev h)"

fun is_auth_change :: "event \<Rightarrow> bool" where
  "is_auth_change (AuthChanged a) = True"
| "is_auth_change ev = False"

fun is_home_auth_change :: "home_event \<Rightarrow> bool" where
  "is_home_auth_change (HomeAuthChanged a) = True"
| "is_home_auth_change ev = False"

section \<open>Properties stated in the words of the specification\<close>

text \<open>Text with no decimal digit in it.\<close>

definition non_numeric :: "jsstr \<Rightarrow> bool" where
  "non_numeric v = list_all (\<lambda>c. \<not> (0x30 \<le> c \<and> c \<le> 0x39)) v"

text \<open>
  The validation pass as the specification lists it: four checks in order, each with its
  message; the first check that fails gives the message.
\<close>

definition checks :: "((plant_state \<Rightarrow> bool) \<times> string) list" where
  "checks =
     [(\<lambda>c. selectedDistrict c \<noteq> None, ''Please select a district''),
      (\<lambda>c. image_file c \<noteq> None, ''Please upload a tree photo''),
      (\<lambda>c. trim (treeName c) \<noteq> [], ''Please enter the tree name''),
      (\<lambda>c. 1 \<le> treeQuantity c, ''Please enter a valid number of trees'')]"

definition first_failing :: "plant_state \<Rightarrow> jsstr option" where
  "first_failing c = map_option (\<lambda>(holds, m). lit m) (find (\<lambda>(holds, m). \<not> holds c) checks)"

text \<open>The draft fields of a state.\<close>

definition draft ::
  "plant_state \<Rightarrow> district option \<times> jsfile option \<times> nat option \<times> jsstr \<times> number" where
  "draft s = (selectedDistrict s, image_file s, previewUrl s, treeName s, treeQuantity s)"

subsection \<open>Invariants of the mounted component\<close>

text \<open>At most one call of \<^verbatim>\<open>handleSubmit\<close> is suspended, and the flag is up while one is.\<close>

definition pend_inv :: "page \<Rightarrow> bool" where
  "pend_inv p =
     (length (pending p) \<le> 1 \<and> (mounted p \<and> pending p \<noteq> [] \<longrightarrow> submitting (st p)))"

text \<open>At most one handle has ever been live at a time, and a live handle is the one the
  state names.\<close>

definition live_inv :: "page \<Rightarrow> bool" where
  "live_inv p =
     (single_live (trace p) \<and>
      set (live (trace p)) \<subseteq> (if mounted p then set_option (previewUrl (st p)) else {}))"

text \<open>Every timer set pushes the confirmation page.\<close>

definition timers_inv :: "page \<Rightarrow> bool" where
  "timers_inv p = (set (timers p) \<subseteq> {lit ''/contribution''})"

subsection \<open>Sample inputs\<close>

definition env0 :: env where
  "env0 = \<lparr>validateImageFile =
             (\<lambda>f. if file_size f \<le> 10485760 then \<lparr>valid = True, verror = None\<rparr>
                  else \<lparr>valid = False, verror = Some (lit ''Image must be under 10MB'')\<rparr>),
           null_read_message = lit ''Cannot read properties of null'',
           to_primitive_message = lit ''Cannot convert object to primitive value''\<rparr>"

definition user0 :: user where
  "user0 = \<lparr>ref = 1, uid = lit ''u1'', displayName = Some (lit ''Asha''), email = None\<rparr>"

definition signed_in :: session where
  "signed_in = \<lparr>user = Some user0, loading = False\<rparr>"

definition signed_out :: session where
  "signed_out = \<lparr>user = None, loading = False\<rparr>"

definition file0 :: jsfile where
  "file0 = \<lparr>file_name = lit ''neem.png'', file_type = lit ''image/png'', file_size = 2048\<rparr>"

definition file1 :: jsfile where
  "file1 = \<lparr>file_name = lit ''mango.jpg'', file_type = lit ''image/jpeg'', file_size = 4096\<rparr>"

definition district0 :: district where
  "district0 = \<lparr>district_id = lit ''d7'', district_name = lit ''Pune'',
     district_state = lit ''Maharashtra''\<rparr>"

definition filled :: "event list" where
  "filled = [DistrictPicked district0, FilesPicked [file0], NameTyped (lit ''Neem''),
     QuantityTyped (lit ''3'')]"

definition in_flight :: page where
  "in_flight = run env0 (filled @ [SubmitPressed]) (mount signed_in)"

definition ok_response :: response where
  "ok_response = \<lparr>status = 200, body = Json (JObj [(lit ''success'', JBool True)])\<rparr>"

definition empty_response :: response where
  "empty_response = \<lparr>status = 204, body = NotJson (lit ''Unexpected end of JSON input'')\<rparr>"

definition html_response :: response where
  "html_response = \<lparr>status = 502, body = NotJson (lit ''Unexpected token <'')\<rparr>"

definition null_response :: response where
  "null_response = \<lparr>status = 500, body = Json JNull\<rparr>"

definition bare_response :: response where
  "bare_response = \<lparr>status = 500, body = Json (JObj [(lit ''message'', JStr (lit ''down''))])\<rparr>"

definition blank_response :: response where
  "blank_response = \<lparr>status = 400, body = Json (JObj [(lit ''error'', JStr [])])\<rparr>"

definition code_response :: response where
  "code_response = \<lparr>status = 404, body = Json (JObj [(lit ''error'', JNum False (lit ''404''))])\<rparr>"

definition hidden_response :: response where
  "hidden_response =
     \<lparr>status = 400,
      body = Json (JObj [(lit ''error'', JObj [(lit ''toString'', JBool True)])])\<rparr>"

definition error_response :: response where
  "error_response =
     \<lparr>status = 400, body = Json (JObj [(lit ''error'', JStr (lit ''district required''))])\<rparr>"

definition ready :: plant_state where
  "ready = \<lparr>image_file = Some file0, previewUrl = Some 0, isDragging = False, treeQuantity = Num 3,
     treeName = lit ''Neem'', selectedDistrict = Some district0, error = None, success = None,
     submitting = False\<rparr>"

definition submitted :: page where
  "submitted = step env0 (Settled (Responded ok_response)) in_flight"

definition no_photo :: "event list" where
  "no_photo = [DistrictPicked district0, NameTyped (lit ''Neem'')]"

text \<open>The two redirects of the session gates, as commands.\<close>

definition to_landing :: cmd where
  "to_landing = RouterPush (lit ''/?auth_required=true'')"

definition to_dashboard :: home_cmd where
  "to_dashboard = Push (lit ''/dashboard'')"

fun is_home_push :: "home_cmd \<Rightarrow> bool" where
  "is_home_push (Push path) = True"
| "is_home_push c = False"

definition resolving :: session where
  "resolving = \<lparr>user = None, loading = True\<rparr>"

text \<open>The handle that the state names has been handed out before.\<close>

definition fresh_inv :: "page \<Rightarrow> bool" where
  "fresh_inv p = (case previewUrl (st p) of None \<Rightarrow> True | Some h \<Rightarrow> h < fresh p)"

section \<open>Proofs\<close>

subsection \<open>Running commands\<close>

lemma exec_Nil [simp]: "exec [] p = p"
  by (simp add: exec_def)

lemma exec_Cons [simp]: "exec (c # cs) p = exec cs (exec1 p c)"
  by (simp add: exec_def)

lemma exec_append: "exec (cs @ ds) p = exec ds (exec cs p)"
  by (simp add: exec_def)

lemma exec1_frame [simp]:
  "mounted (exec1 p c) = mounted p" "auth (exec1 p c) = auth p"
  "pending (exec1 p c) = pending p" "trace (exec1 p c) = trace p @ [c]"
  by (simp_all add: exec1_def)

lemma exec_frame [simp]:
  "mounted (exec cs p) = mounted p" "auth (exec cs p) = auth p"
  "pending (exec cs p) = pending p" "trace (exec cs p) = trace p @ cs"
  by (induction cs arbitrary: p) simp_all

lemma st_exec: "st (exec cs p) = (if mounted p then foldl (\<lambda>s c. apply_cmd c s) (st p) cs else st p)"
  by (induction cs arbitrary: p) (simp_all add: exec1_def)

lemma live_append: "live (tr @ cs) = foldl live_step (live tr) cs"
  by (simp add: live_def)

lemma single_from_length: "single_from L cs \<Longrightarrow> length L \<le> 1"
  by (cases cs) auto

lemma single_from_append:
  "single_from L (a @ b) = (single_from L a \<and> single_from (foldl live_step L a) b)"
  by (induction a arbitrary: L) (auto dest: single_from_length)

lemma single_live_append:
  "single_live (tr @ cs) = (single_live tr \<and> single_from (live tr) cs)"
  by (simp add: single_live_def single_from_append live_def)

lemma exec_effects [simp]: "st (exec (effects s0 a0 q) q) = st q"
  by (auto simp: effects_def release_def redirect_effect_def exec1_def split: option.splits)

lemma track_frame [simp]:
  "st (track ev p cs q) = st q" "trace (track ev p cs q) = trace q"
  "fresh (track ev p cs q) = fresh q"
  "mounted (track ev p cs q) = (mounted q \<and> ev \<noteq> Unmount)"
  by (auto simp: track_def split: event.splits)

lemma st_step: "st (step E ev p) = st (exec (handler E ev p) p)"
  by (simp add: step_def commit_def)

lemma mounted_step: "mounted (step E ev p) = (mounted p \<and> ev \<noteq> Unmount)"
  by (simp add: step_def commit_def)

lemma pending_step:
  "pending (step E ev p) =
     (case ev of
        SubmitPressed \<Rightarrow> if list_ex is_fetch (handler E ev p) then pending p @ [st p] else pending p
      | Settled out \<Rightarrow> tl (pending p)
      | _ \<Rightarrow> pending p)"
  by (simp add: step_def commit_def track_def split: event.splits)

lemma trace_step:
  "trace (step E ev p) = trace p @ handler E ev p @
     effects (st p) (auth p) (track ev p (handler E ev p) (exec (handler E ev p) p))"
  by (simp add: step_def commit_def)

lemma submitting_foldl:
  "list_all (\<lambda>c. case c of SetSubmitting b \<Rightarrow> False | _ \<Rightarrow> True) cs \<Longrightarrow>
   submitting (foldl (\<lambda>s c. apply_cmd c s) s cs) = submitting s"
  by (induction cs arbitrary: s) (auto split: cmd.splits)

lemma submit_enabledD: "submit_enabled p \<Longrightarrow> mounted p \<and> \<not> submitting (st p) \<and> form_shown p"
  by (auto simp: submit_enabled_def form_shown_def render_def split: if_splits)

lemma form_shownD: "form_shown p \<Longrightarrow> mounted p \<and> \<not> loading (auth p) \<and> user (auth p) \<noteq> None"
  by (auto simp: form_shown_def render_def split: if_splits)

lemma handler_submitting:
  "submitting (st (exec (handler E ev p) p)) =
     (case ev of
        SubmitPressed \<Rightarrow> list_ex is_fetch (handler E ev p) \<or> submitting (st p)
      | Settled out \<Rightarrow> if mounted p \<and> pending p \<noteq> [] then False else submitting (st p)
      | _ \<Rightarrow> submitting (st p))"
  by (cases ev)
     (auto simp: st_exec submitting_foldl handleImageChange_def handleImageFile_def handleDrop_def
        handleDragOver_def handleDragLeave_def onDistrictSelect_def onQuantityChange_def
        onNameChange_def handleSubmit_def handleSubmit_settled_def try_rest_def release_def
        Let_def on_success_def accept_file_def
        dest: submit_enabledD form_shownD
        split: list.splits option.splits sum.splits outcome.splits body.splits)

lemma pend_inv_step:
  assumes "pend_inv p"
  shows "pend_inv (step E ev p)"
proof -
  from assms handler_submitting [of E ev p] show ?thesis
    by (cases ev)
       (auto simp: pend_inv_def pending_step mounted_step st_step
          dest: submit_enabledD split: if_splits list.splits)
qed

lemma no_create_live:
  "list_all (\<lambda>c. \<not> is_create c) cs \<Longrightarrow>
   set (foldl live_step L cs) \<subseteq> set L \<and> length (foldl live_step L cs) \<le> length L"
proof (induction cs arbitrary: L)
  case Nil
  then show ?case by simp
next
  case (Cons c cs)
  have "set (live_step L c) \<subseteq> set L \<and> length (live_step L c) \<le> length L"
    using Cons.prems by (cases c) (auto intro: le_trans [OF length_removeAll_less_eq])
  with Cons.IH [of "live_step L c"] Cons.prems show ?case
    by fastforce
qed

lemma no_create_single:
  "list_all (\<lambda>c. \<not> is_create c) cs \<Longrightarrow> length L \<le> 1 \<Longrightarrow> single_from L cs"
proof (induction cs arbitrary: L)
  case Nil
  then show ?case by simp
next
  case (Cons c cs)
  have "length (live_step L c) \<le> length L"
    using Cons.prems by (cases c) (auto intro: le_trans [OF length_removeAll_less_eq])
  with Cons show ?case by simp
qed

lemma settled_cases:
  "(\<exists>m. handleSubmit_settled E c out = [SetError (Some m), SetSubmitting False]) \<or>
   handleSubmit_settled E c out = on_success c @ [SetSubmitting False]"
  by (auto simp: handleSubmit_settled_def try_rest_def split: outcome.splits body.splits)

lemma submit_cases:
  "(\<exists>m. handleSubmit c u = [PreventDefault, SetError None, SetSuccess None, SetError (Some m)]) \<or>
   (\<exists>fd. handleSubmit c u = [PreventDefault, SetError None, SetSuccess None, SetSubmitting True,
      Fetch (lit ''/api/plant'') (lit ''POST'') fd])"
  by (auto simp: handleSubmit_def split: option.splits)

lemma image_cases:
  "(\<exists>m. handleImageFile E c h f = [SetError (Some m)]) \<or>
   handleImageFile E c h f = accept_file c h f"
  by (auto simp: handleImageFile_def Let_def)

lemma release_no_create: "list_all (\<lambda>c. \<not> is_create c) (release u)"
  by (simp add: release_def split: option.splits)

lemma effects_no_create: "list_all (\<lambda>c. \<not> is_create c) (effects s0 a0 q)"
  by (simp add: effects_def release_no_create redirect_effect_def)

lemma handler_create_cases:
  "list_all (\<lambda>c. \<not> is_create c) (handler E ev p) \<or>
   (mounted p \<and> (\<exists>pre f. handler E ev p = pre @ accept_file (st p) (fresh p) f \<and>
       (pre = [] \<or> pre = [PreventDefault, SetIsDragging False])))"
proof (cases ev)
  case (FilesPicked fs)
  then show ?thesis
    using image_cases [of E "st p" "fresh p" "hd fs"]
    by (cases fs) (auto simp: handleImageChange_def accept_file_def dest: form_shownD)
next
  case (Dropped fs)
  then show ?thesis
    using image_cases [of E "st p" "fresh p" "hd fs"]
    by (cases fs) (auto simp: handleDrop_def accept_file_def dest: form_shownD)
next
  case SubmitPressed
  then show ?thesis
    using submit_cases [of "st p" "user (auth p)"] by auto
next
  case (Settled out)
  then show ?thesis
    using settled_cases [of E "hd (pending p)" out]
    by (cases "pending p") (auto simp: on_success_def release_no_create)
qed (auto simp: handleDragOver_def handleDragLeave_def onDistrictSelect_def onQuantityChange_def
      onNameChange_def release_no_create split: list.splits)

lemma foldl_release:
  "set L \<subseteq> set_option u \<Longrightarrow> u \<noteq> None \<Longrightarrow> foldl live_step L (release u) = []"
  by (cases u) (auto simp: release_def removeAll_filter_not_eq filter_empty_conv)

lemma single_from_final: "single_from L cs \<Longrightarrow> length (foldl live_step L cs) \<le> 1"
  by (induction cs arbitrary: L) auto

lemma foldl_release_any:
  "set (foldl live_step L (release u)) \<subseteq> set L"
  by (cases u) (auto simp: release_def)

lemma live_redirect [simp]: "foldl live_step L (redirect_effect a) = L"
  by (simp add: redirect_effect_def)

lemma single_redirect [simp]: "single_from L (redirect_effect a) = (length L \<le> 1)"
  by (simp add: redirect_effect_def)

lemma live_inv_step:
  assumes "live_inv p"
  shows "live_inv (step E ev p)"
proof -
  define L where "L = live (trace p)"
  define cs where "cs = handler E ev p"
  define q where "q = track ev p cs (exec cs p)"
  define effs where "effs = effects (st p) (auth p) q"
  have sl: "single_live (trace p)" and sub: "set L \<subseteq> (if mounted p then set_option (previewUrl (st p)) else {})"
    using assms by (simp_all add: live_inv_def L_def)
  have len: "length L \<le> 1"
    using sl single_from_final [of "[]" "trace p"]
    by (simp add: single_live_def L_def live_def)
  have tr: "trace (step E ev p) = trace p @ cs @ effs"
    by (simp add: trace_step cs_def effs_def q_def)
  have stq: "st q = st (exec cs p)" and mq: "mounted q = (mounted p \<and> ev \<noteq> Unmount)"
    by (simp_all add: q_def)
  have st': "st (step E ev p) = st q"
    by (simp add: st_step stq cs_def)
  have m': "mounted (step E ev p) = mounted q"
    by (simp add: mounted_step mq)
  from handler_create_cases [of E ev p]
  show ?thesis
  proof
    assume nc: "list_all (\<lambda>c. \<not> is_create c) (handler E ev p)"
    then have nc': "list_all (\<lambda>c. \<not> is_create c) (cs @ effs)"
      by (simp add: cs_def effs_def effects_no_create)
    have single: "single_live (trace (step E ev p))"
      by (simp add: tr single_live_append sl no_create_single [OF nc' len [unfolded L_def]])
    have L1: "set (foldl live_step L cs) \<subseteq> set L"
      using no_create_live [OF nc] by (simp add: cs_def)
    have "set (live (trace (step E ev p))) \<subseteq> (if mounted q then set_option (previewUrl (st q)) else {})"
    proof (cases "mounted q")
      case True
      then have mp: "mounted p" by (simp add: mq)
      show ?thesis
      proof (cases "previewUrl (st q) = previewUrl (st p)")
        case same: True
        have "set (live (trace (step E ev p))) \<subseteq> set (foldl live_step L cs)"
          using no_create_live [OF effects_no_create, of "foldl live_step L cs" "st p" "auth p" q]
          by (simp add: tr live_append effs_def L_def)
        with L1 sub mp True same show ?thesis by auto
      next
        case False
        then obtain h where h: "previewUrl (st p) = Some h \<or> previewUrl (st p) = None" by auto
        have "foldl live_step (foldl live_step L cs) (release (previewUrl (st p))) = []"
        proof (cases "previewUrl (st p)")
          case None
          with sub mp L1 show ?thesis by (simp add: release_def)
        next
          case (Some h)
          with sub mp L1 show ?thesis by (intro foldl_release) auto
        qed
        then have "live (trace (step E ev p)) = []"
          using True False by (simp add: tr live_append effs_def effects_def L_def)
        then show ?thesis by simp
      qed
    next
      case False
      have a: "set (live (trace (step E ev p))) \<subseteq> set (foldl live_step L cs)"
        using no_create_live [OF effects_no_create, of "foldl live_step L cs" "st p" "auth p" q]
        by (simp add: tr live_append effs_def L_def)
      show ?thesis
      proof (cases "mounted p")
        case True
        with False have ev: "ev = Unmount" by (simp add: mq)
        have "foldl live_step L cs = []"
        proof (cases "previewUrl (st p)")
          case None
          with sub True show ?thesis by (simp add: cs_def ev release_def)
        next
          case (Some h)
          with sub True show ?thesis by (simp add: cs_def ev foldl_release)
        qed
        with a False show ?thesis by simp
      next
        case np: False
        with sub L1 a False show ?thesis by auto
      qed
    qed
    with single show ?thesis by (auto simp: live_inv_def st' m' split: if_splits)
  next
    assume "mounted p \<and> (\<exists>pre f. handler E ev p = pre @ accept_file (st p) (fresh p) f \<and>
       (pre = [] \<or> pre = [PreventDefault, SetIsDragging False]))"
    then obtain pre f where mp: "mounted p"
      and cs: "cs = pre @ accept_file (st p) (fresh p) f"
      and pre: "pre = [] \<or> pre = [PreventDefault, SetIsDragging False]"
      by (auto simp: cs_def)
    have "\<not> list_all (\<lambda>c. \<not> is_create c) cs"
      by (simp add: cs accept_file_def)
    moreover have "ev = Unmount \<Longrightarrow> list_all (\<lambda>c. \<not> is_create c) cs"
      by (simp add: cs_def release_no_create)
    ultimately have ev: "ev \<noteq> Unmount"
      by blast
    have rel: "foldl live_step L (release (previewUrl (st p))) = []"
    proof (cases "previewUrl (st p)")
      case None
      with sub mp show ?thesis by (simp add: release_def)
    next
      case (Some h)
      with sub mp show ?thesis by (simp add: foldl_release)
    qed
    have pu: "previewUrl (st q) = Some (fresh p)"
      using mp pre by (auto simp: stq cs st_exec accept_file_def)
    have lcs: "foldl live_step L cs = [fresh p]"
      using pre rel by (auto simp: cs accept_file_def)
    have scs: "single_from L cs"
      using pre rel len no_create_single [OF release_no_create len, of "previewUrl (st p)"]
      by (auto simp: cs accept_file_def single_from_append)
    have eff: "effs = (if Some (fresh p) \<noteq> previewUrl (st p) then release (previewUrl (st p)) else []) @
           (if \<not> same_deps (auth p) (auth q) then redirect_effect (auth q) else [])"
      using mp ev by (simp add: effs_def effects_def mq pu)
    have leff: "foldl live_step [fresh p] effs = [fresh p]"
      by (auto simp: eff release_def split: option.splits)
    have seff: "single_from [fresh p] effs"
      by (auto simp: eff release_def single_from_append split: option.splits)
    show ?thesis
      using sl scs seff lcs leff mp ev
      by (simp add: live_inv_def tr single_live_append single_from_append live_append st' m' mq pu
          flip: L_def)
  qed
qed

subsection \<open>What each event does\<close>

lemma form_shown_iff:
  "form_shown p \<longleftrightarrow> mounted p \<and> \<not> loading (auth p) \<and> user (auth p) \<noteq> None"
  by (auto simp: form_shown_def render_def)

lemma submit_enabled_iff: "submit_enabled p \<longleftrightarrow> form_shown p \<and> \<not> submitting (st p)"
  by (auto simp: submit_enabled_def form_shown_def render_def)

lemma same_deps_refl [simp]: "same_deps a a"
  by (simp add: same_deps_def)

lemma step_DistrictPicked:
  "form_shown p \<Longrightarrow> step E (DistrictPicked d) p =
     p\<lparr>st := (st p)\<lparr>selectedDistrict := Some d, error := None\<rparr>,
       trace := trace p @ [SetSelectedDistrict (Some d), SetError None]\<rparr>"
  by (simp add: step_def onDistrictSelect_def exec1_def track_def commit_def effects_def
      form_shown_iff)

lemma step_NameTyped:
  "form_shown p \<Longrightarrow> step E (NameTyped v) p =
     p\<lparr>st := (st p)\<lparr>treeName := v\<rparr>, trace := trace p @ [SetTreeName v]\<rparr>"
  by (simp add: step_def onNameChange_def exec1_def track_def commit_def effects_def
      form_shown_iff)

lemma step_QuantityTyped:
  "form_shown p \<Longrightarrow> step E (QuantityTyped v) p =
     p\<lparr>st := (st p)\<lparr>treeQuantity := max 1 (num_or (parseInt v) 1)\<rparr>,
       trace := trace p @ [SetTreeQuantity (max 1 (num_or (parseInt v) 1))]\<rparr>"
  by (simp add: step_def onQuantityChange_def exec1_def track_def commit_def effects_def
      form_shown_iff)

lemma step_FilesPicked:
  "form_shown p \<Longrightarrow> valid (validateImageFile E f) \<Longrightarrow>
   step E (FilesPicked (f # fs)) p =
     p\<lparr>st := (st p)\<lparr>image_file := Some f, previewUrl := Some (fresh p), error := None,
                   success := None\<rparr>,
       trace := trace p @ accept_file (st p) (fresh p) f @
                (if previewUrl (st p) \<noteq> Some (fresh p) then release (previewUrl (st p)) else []),
       fresh := Suc (fresh p)\<rparr>"
  by (cases "previewUrl (st p)")
     (auto simp: step_def handleImageChange_def handleImageFile_def accept_file_def release_def
        exec1_def track_def commit_def effects_def form_shown_iff exec_append)

lemma step_SubmitPressed_disabled:
  "\<not> submit_enabled p \<Longrightarrow> step E SubmitPressed p = p"
  by (simp add: step_def track_def commit_def effects_def)

lemma handleSubmit_failing:
  "first_failing c = Some m \<Longrightarrow>
   handleSubmit c u = [PreventDefault, SetError None, SetSuccess None, SetError (Some m)]"
  by (auto simp: first_failing_def checks_def handleSubmit_def not_le split: option.splits if_splits)

lemma handleSubmit_passing:
  "first_failing c = None \<Longrightarrow>
   \<exists>d img. selectedDistrict c = Some d \<and> image_file c = Some img \<and>
     handleSubmit c u = [PreventDefault, SetError None, SetSuccess None, SetSubmitting True,
       Fetch (lit ''/api/plant'') (lit ''POST'') (formData c u d img)]"
  by (auto simp: first_failing_def checks_def handleSubmit_def not_le split: option.splits if_splits)

lemma step_SubmitPressed_failing:
  "submit_enabled p \<Longrightarrow> first_failing (st p) = Some m \<Longrightarrow>
   step E SubmitPressed p =
     p\<lparr>st := (st p)\<lparr>error := Some m, success := None\<rparr>,
       trace := trace p @ [PreventDefault, SetError None, SetSuccess None, SetError (Some m)]\<rparr>"
  by (simp add: step_def handleSubmit_failing exec1_def track_def commit_def effects_def
      submit_enabled_iff form_shown_iff)

lemma step_SubmitPressed_passing:
  "submit_enabled p \<Longrightarrow> selectedDistrict (st p) = Some d \<Longrightarrow> image_file (st p) = Some img \<Longrightarrow>
   trim (treeName (st p)) \<noteq> [] \<Longrightarrow> 1 \<le> treeQuantity (st p) \<Longrightarrow>
   step E SubmitPressed p =
     p\<lparr>st := (st p)\<lparr>error := None, success := None, submitting := True\<rparr>,
       trace := trace p @ [PreventDefault, SetError None, SetSuccess None, SetSubmitting True,
         Fetch (lit ''/api/plant'') (lit ''POST'') (formData (st p) (user (auth p)) d img)],
       pending := pending p @ [st p]\<rparr>"
  by (simp add: step_def handleSubmit_def exec1_def track_def commit_def effects_def
      submit_enabled_iff form_shown_iff)

lemma step_Settled_failure:
  "mounted p \<Longrightarrow> pending p = c # cs \<Longrightarrow> try_rest E c out = Inl m \<Longrightarrow>
   step E (Settled out) p =
     p\<lparr>st := (st p)\<lparr>error := Some (str_or (Some m) (lit ''Failed to submit contribution'')),
                   submitting := False\<rparr>,
       trace := trace p @ [SetError (Some (str_or (Some m) (lit ''Failed to submit contribution''))),
                           SetSubmitting False],
       pending := cs\<rparr>"
  by (simp add: step_def handleSubmit_settled_def exec1_def track_def commit_def effects_def)

lemma step_Settled_success:
  "mounted p \<Longrightarrow> pending p = c # cs \<Longrightarrow> try_rest E c out = Inr (on_success c) \<Longrightarrow>
   step E (Settled out) p =
     p\<lparr>st := (st p)\<lparr>success := Some (lit ''Tree contribution submitted successfully!''),
                   image_file := None, previewUrl := None, treeName := [], treeQuantity := 1,
                   selectedDistrict := None, submitting := False\<rparr>,
       trace := trace p @ on_success c @ [SetSubmitting False] @
                (if previewUrl (st p) \<noteq> None then release (previewUrl (st p)) else []),
       pending := cs,
       timers := timers p @ [lit ''/contribution'']\<rparr>"
  by (cases "previewUrl c"; cases "previewUrl (st p)")
     (auto simp: step_def handleSubmit_settled_def on_success_def release_def exec1_def track_def
        commit_def effects_def exec_append)

subsection \<open>Reading a number from text\<close>

lemma is_digit_10: "is_digit 10 c = (0x30 \<le> c \<and> c \<le> 0x39)"
proof (cases "0x30 \<le> c \<and> c \<le> 0x39")
  case True
  then have "unat c \<le> 0x39" by (simp add: word_le_nat_alt)
  with True show ?thesis by (simp add: is_digit_def digit_val_def)
next
  case False
  then show ?thesis
    by (auto simp: is_digit_def digit_val_def word_le_nat_alt split: option.splits)
qed

lemma strip_sign_set: "set (snd (strip_sign s)) \<subseteq> set s"
  by (cases s) auto

lemma strip_prefix_nondigit:
  "list_all (\<lambda>c. \<not> (0x30 \<le> c \<and> c \<le> 0x39)) s \<Longrightarrow> strip_prefix s = (10, s)"
  by (cases s rule: strip_prefix.cases) auto

lemma takeWhile_nondigit:
  "list_all (\<lambda>c. \<not> (0x30 \<le> c \<and> c \<le> 0x39)) s \<Longrightarrow> takeWhile (is_digit 10) s = []"
  by (cases s) (auto simp: is_digit_10)

lemma parseInt_non_numeric:
  assumes "non_numeric v"
  shows "parseInt v = None"
proof -
  obtain neg S where ss: "strip_sign (dropWhile is_ws v) = (neg, S)" by force
  have "set S \<subseteq> set v"
    using strip_sign_set [of "dropWhile is_ws v"] ss set_dropWhileD [of _ is_ws v] by auto
  with assms have S: "list_all (\<lambda>c. \<not> (0x30 \<le> c \<and> c \<le> 0x39)) S"
    by (auto simp: non_numeric_def list_all_iff)
  show ?thesis
    by (simp add: parseInt_def ss strip_prefix_nondigit [OF S] takeWhile_nondigit [OF S])
qed

lemmas parseInt_eval = parseInt_def lit_def is_ws_def is_digit_def digit_val_def
  digits_value_def to_number_def round_double_def

lemma parseInt_zero: "parseInt (lit ''0'') = Some (Num 0)"
  by (simp add: parseInt_eval)

lemma parseInt_minus_five: "parseInt (lit ''-5'') = Some (Num (- 5))"
  by (simp add: parseInt_eval)

lemma parseInt_three: "parseInt (lit ''3'') = Some (Num 3)"
  by (simp add: parseInt_eval)

lemma parseInt_beyond_safe:
  "parseInt (lit ''9007199254740993'') = Some (Num 9007199254740992)"
  by (simp add: parseInt_eval bits.simps [of 9007199254740993] Let_def)

lemma parseInt_overflow: "parseInt (replicate 310 0x39) = Some PosInf"
  by code_simp

lemma one_le_Num [simp]: "1 \<le> Num n \<longleftrightarrow> 1 \<le> n"
  by (simp add: one_number_def)

lemma Num_less_one [simp]: "Num n < 1 \<longleftrightarrow> n < 1"
  by (auto simp: less_number_def one_number_def)

lemma Num_eq_one [simp]: "Num n = 1 \<longleftrightarrow> n = 1"
  by (simp add: one_number_def)

lemma max_one_Num [simp]: "max 1 (Num n) = Num (max 1 n)"
  by (simp add: max_def one_number_def)

lemma max_one_infinite [simp]: "max 1 PosInf = PosInf" "max 1 NegInf = 1"
  by (simp_all add: max_def one_number_def)

lemma one_le_clamped: "1 \<le> max 1 (num_or x 1)"
  by simp

subsection \<open>The sample session\<close>

lemma mount_signed_in:
  "mount signed_in =
     \<lparr>st = initial, auth = signed_in, mounted = True, trace = [], pending = [], timers = [],
      fresh = 0\<rparr>"
  by (simp add: mount_def redirect_effect_def signed_in_def)

lemma form_shown_signed_in [simp]:
  "form_shown \<lparr>st = s, auth = signed_in, mounted = True, trace = t, pending = pe, timers = ti,
     fresh = fr\<rparr>"
  by (simp add: form_shown_iff signed_in_def)

subsection \<open>Reachable pages\<close>

lemma run_append: "run E (evs @ evs') p = run E evs' (run E evs p)"
  by (induction evs arbitrary: p) simp_all

lemma pend_inv_run: "pend_inv p \<Longrightarrow> pend_inv (run E evs p)"
  by (induction evs arbitrary: p) (simp_all add: pend_inv_step)

lemma live_inv_run: "live_inv p \<Longrightarrow> live_inv (run E evs p)"
  by (induction evs arbitrary: p) (simp_all add: live_inv_step)

lemma pend_inv_mount: "pend_inv (mount a)"
  by (simp add: pend_inv_def mount_def)

lemma live_inv_mount: "live_inv (mount a)"
  by (simp add: live_inv_def mount_def single_live_def live_def redirect_effect_def exec1_def)

lemma mounted_run_Unmount: "\<not> mounted p \<Longrightarrow> \<not> mounted (run E evs p)"
  by (induction evs arbitrary: p) (simp_all add: mounted_step)

lemma trim_Neem: "trim (lit ''Neem'') = lit ''Neem''"
  by code_simp

lemma lit_Neem: "lit ''Neem'' \<noteq> []"
  by (simp add: lit_def)

lemma valid_file0: "valid (validateImageFile env0 file0)"
  by (simp add: env0_def file0_def)

lemma submit_enabled_signed_in [simp]:
  "submit_enabled \<lparr>st = s, auth = signed_in, mounted = True, trace = t, pending = pe, timers = ti,
     fresh = fr\<rparr> = (\<not> submitting s)"
  by (simp add: submit_enabled_iff)

lemma filled_run:
  "run env0 filled (mount signed_in) =
     \<lparr>st = ready, auth = signed_in, mounted = True,
      trace = [SetSelectedDistrict (Some district0), SetError None] @
              accept_file (initial\<lparr>selectedDistrict := Some district0\<rparr>) 0 file0 @
              [SetTreeName (lit ''Neem''), SetTreeQuantity (Num 3)],
      pending = [], timers = [], fresh = 1\<rparr>"
  by (simp add: filled_def mount_signed_in step_DistrictPicked step_FilesPicked step_NameTyped
      step_QuantityTyped valid_file0 parseInt_three num_or_def initial_def ready_def release_def)

lemma in_flight_eq:
  "in_flight =
     \<lparr>st = ready\<lparr>submitting := True\<rparr>, auth = signed_in, mounted = True,
      trace = trace (run env0 filled (mount signed_in)) @
              [PreventDefault, SetError None, SetSuccess None, SetSubmitting True,
               Fetch (lit ''/api/plant'') (lit ''POST'') (formData ready (Some user0) district0 file0)],
      pending = [ready], timers = [], fresh = 1\<rparr>"
proof -
  have "in_flight = step env0 SubmitPressed (run env0 filled (mount signed_in))"
    by (simp add: in_flight_def run_append)
  also have "\<dots> = step env0 SubmitPressed
     \<lparr>st = ready, auth = signed_in, mounted = True,
      trace = trace (run env0 filled (mount signed_in)),
      pending = [], timers = [], fresh = 1\<rparr>"
    by (simp add: filled_run)
  also have "\<dots> = \<lparr>st = ready\<lparr>submitting := True\<rparr>, auth = signed_in, mounted = True,
      trace = trace (run env0 filled (mount signed_in)) @
              [PreventDefault, SetError None, SetSuccess None, SetSubmitting True,
               Fetch (lit ''/api/plant'') (lit ''POST'') (formData ready (Some user0) district0 file0)],
      pending = [ready], timers = [], fresh = 1\<rparr>"
    by (subst step_SubmitPressed_passing [where d = district0 and img = file0])
       (simp_all add: ready_def trim_Neem lit_Neem signed_in_def submit_enabled_iff form_shown_iff)
  finally show ?thesis .
qed

lemma removeAll_only: "set L \<subseteq> {h} \<Longrightarrow> removeAll h L = []"
  by (auto simp: removeAll_filter_not_eq filter_empty_conv)

lemma valid_file1: "valid (validateImageFile env0 file1)"
  by (simp add: env0_def file1_def)

subsection \<open>Validation and settling\<close>

lemma fetches_append [simp]: "fetches (a @ b) = fetches a @ fetches b"
  by (simp add: fetches_def)

lemma first_failing_unfold:
  "first_failing c =
     (if selectedDistrict c = None then Some (lit ''Please select a district'')
      else if image_file c = None then Some (lit ''Please upload a tree photo'')
      else if trim (treeName c) = [] then Some (lit ''Please enter the tree name'')
      else if treeQuantity c < 1 then Some (lit ''Please enter a valid number of trees'')
      else None)"
  by (simp add: first_failing_def checks_def not_le)

lemma try_rest_ok: "ok res \<Longrightarrow> body res = Json j \<Longrightarrow> try_rest E c (Responded res) = Inr (on_success c)"
  by (simp add: try_rest_def)

lemma try_rest_not_ok:
  "\<not> ok res \<Longrightarrow>
   try_rest E c (Responded res) =
     Inl (case body res of NotJson m \<Rightarrow> m | Json j \<Rightarrow> thrown_message E j)"
  by (simp add: try_rest_def split: body.splits)

lemma fallback_nonempty: "lit ''Failed to submit contribution'' \<noteq> []"
  by (simp add: lit_def)

lemma error_after_failure:
  assumes "mounted p" and "pending p \<noteq> []" and "\<not> ok res"
  shows "error (st (step E (Settled (Responded res)) p)) =
     Some (str_or (Some (case body res of NotJson t \<Rightarrow> t | Json j \<Rightarrow> thrown_message E j))
             (lit ''Failed to submit contribution''))"
proof -
  obtain c cs where pend: "pending p = c # cs"
    using assms(2) by (cases "pending p") auto
  have "try_rest E c (Responded res) =
      Inl (case body res of NotJson t \<Rightarrow> t | Json j \<Rightarrow> thrown_message E j)"
    using assms(3) by (rule try_rest_not_ok)
  from step_Settled_failure [OF assms(1) pend this] show ?thesis
    by simp
qed

lemma fetches_on_success [simp]: "fetches (on_success c) = []"
  by (simp add: fetches_def on_success_def release_def split: option.splits)

lemma fetches_release [simp]: "fetches (release u) = []"
  by (simp add: fetches_def release_def split: option.splits)

lemma timeouts_on_success:
  "filter is_timeout (on_success c) = [SetTimeout (lit ''/contribution'') 2000]"
  by (simp add: on_success_def release_def split: option.splits)

lemma submitted_eq:
  "submitted = in_flight\<lparr>st := (st in_flight)\<lparr>success := Some (lit ''Tree contribution submitted successfully!''),
                   image_file := None, previewUrl := None, treeName := [], treeQuantity := 1,
                   selectedDistrict := None, submitting := False\<rparr>,
       trace := trace in_flight @ on_success ready @ [SetSubmitting False, RevokeImagePreview 0],
       pending := [],
       timers := [lit ''/contribution'']\<rparr>"
proof -
  have rest: "try_rest env0 ready (Responded ok_response) = Inr (on_success ready)"
    by (rule try_rest_ok) (simp_all add: ok_def ok_response_def)
  have m: "mounted in_flight" and pe: "pending in_flight = [ready]"
    by (simp_all add: in_flight_eq)
  show ?thesis
    unfolding submitted_def step_Settled_success [OF m pe rest]
    by (simp add: in_flight_eq ready_def release_def)
qed

lemma refilled_run:
  "run env0 filled submitted =
     submitted\<lparr>st := ready\<lparr>previewUrl := Some 1\<rparr>,
       trace := trace submitted @
              [SetSelectedDistrict (Some district0), SetError None] @
              accept_file ((st submitted)\<lparr>selectedDistrict := Some district0, error := None\<rparr>)
                1 file0 @
              [SetTreeName (lit ''Neem''), SetTreeQuantity (Num 3)],
       fresh := 2\<rparr>"
  by (simp add: filled_def submitted_eq in_flight_eq step_DistrictPicked step_FilesPicked
      step_NameTyped step_QuantityTyped valid_file0 parseInt_three num_or_def ready_def
      release_def form_shown_iff signed_in_def)

lemma no_photo_run:
  "run env0 no_photo (mount signed_in) =
     \<lparr>st = initial\<lparr>selectedDistrict := Some district0, treeName := lit ''Neem''\<rparr>,
      auth = signed_in, mounted = True,
      trace = [SetSelectedDistrict (Some district0), SetError None, SetTreeName (lit ''Neem'')],
      pending = [], timers = [], fresh = 0\<rparr>"
  by (simp add: no_photo_def mount_signed_in step_DistrictPicked step_NameTyped initial_def)

subsection \<open>The session gate of the plant page\<close>

lemma auth_step: "\<not> is_auth_change ev \<Longrightarrow> auth (step E ev p) = auth p"
  by (cases ev) (simp_all add: step_def commit_def track_def)

lemma auth_run: "\<not> list_ex is_auth_change evs \<Longrightarrow> auth (run E evs p) = auth p"
  by (induction evs arbitrary: p) (simp_all add: auth_step)

lemma timers_exec:
  "timers (exec cs p) =
     timers p @ concat (map (\<lambda>c. case c of SetTimeout path ms \<Rightarrow> [path] | _ \<Rightarrow> []) cs)"
  by (induction cs arbitrary: p) (auto simp: exec1_def split: cmd.splits)

lemma timers_effects [simp]: "timers (exec (effects s0 a0 q) q) = timers q"
  by (auto simp: timers_exec effects_def release_def redirect_effect_def split: option.splits)

lemma handler_timeouts:
  "set (concat (map (\<lambda>c. case c of SetTimeout path ms \<Rightarrow> [path] | _ \<Rightarrow> []) (handler E ev p)))
     \<subseteq> {lit ''/contribution''}"
proof (cases ev)
  case (FilesPicked fs)
  then show ?thesis
    using image_cases [of E "st p" "fresh p" "hd fs"]
    by (cases fs) (auto simp: handleImageChange_def accept_file_def release_def split: option.splits)
next
  case (Dropped fs)
  then show ?thesis
    using image_cases [of E "st p" "fresh p" "hd fs"]
    by (cases fs) (auto simp: handleDrop_def accept_file_def release_def split: option.splits)
next
  case SubmitPressed
  then show ?thesis
    using submit_cases [of "st p" "user (auth p)"] by auto
next
  case (Settled out)
  then show ?thesis
    using settled_cases [of E "hd (pending p)" out]
    by (cases "pending p") (auto simp: on_success_def release_def split: option.splits)
qed (auto simp: handleDragOver_def handleDragLeave_def onDistrictSelect_def onQuantityChange_def
      onNameChange_def release_def split: list.splits option.splits)

lemma timers_step:
  "set (timers (step E ev p)) \<subseteq> set (timers p) \<union> {lit ''/contribution''}"
proof -
  have "set (timers (exec (handler E ev p) p)) \<subseteq> set (timers p) \<union> {lit ''/contribution''}"
    using handler_timeouts [of E ev p] by (auto simp: timers_exec)
  moreover have "set (timers (track ev p cs q)) \<subseteq> set (timers q)" for cs q
    by (cases ev; cases "timers q") (auto simp: track_def)
  ultimately show ?thesis
    unfolding step_def commit_def by (simp only: timers_effects) blast
qed

lemma timers_inv_step: "timers_inv p \<Longrightarrow> timers_inv (step E ev p)"
  using timers_step [of E ev p] by (auto simp: timers_inv_def)

lemma timers_inv_run: "timers_inv p \<Longrightarrow> timers_inv (run E evs p)"
  by (induction evs arbitrary: p) (simp_all add: timers_inv_step)

lemma timers_inv_mount: "timers_inv (mount a)"
  by (simp add: timers_inv_def mount_def timers_exec redirect_effect_def)

lemma contribution_not_landing: "RouterPush (lit ''/contribution'') \<noteq> to_landing"
  by (simp add: to_landing_def lit_def)

lemma handler_landing:
  assumes "timers_inv p"
  shows "to_landing \<notin> set (handler E ev p)"
proof (cases ev)
  case (FilesPicked fs)
  then show ?thesis
    using image_cases [of E "st p" "fresh p" "hd fs"]
    by (cases fs) (auto simp: handleImageChange_def accept_file_def release_def to_landing_def
        split: option.splits)
next
  case (Dropped fs)
  then show ?thesis
    using image_cases [of E "st p" "fresh p" "hd fs"]
    by (cases fs) (auto simp: handleDrop_def accept_file_def release_def to_landing_def
        split: option.splits)
next
  case SubmitPressed
  then show ?thesis
    using submit_cases [of "st p" "user (auth p)"] by (auto simp: to_landing_def)
next
  case (Settled out)
  then show ?thesis
    using settled_cases [of E "hd (pending p)" out]
    by (cases "pending p") (auto simp: on_success_def release_def to_landing_def split: option.splits)
next
  case TimerFired
  then show ?thesis
    using assms contribution_not_landing
    by (cases "timers p") (auto simp: timers_inv_def)
qed (auto simp: handleDragOver_def handleDragLeave_def onDistrictSelect_def onQuantityChange_def
      onNameChange_def release_def to_landing_def split: list.splits option.splits)

lemma landing_step:
  assumes "timers_inv p" and "\<not> is_auth_change ev"
  shows "filter (\<lambda>c. c = to_landing) (trace (step E ev p)) = filter (\<lambda>c. c = to_landing) (trace p)"
proof -
  define q where "q = track ev p (handler E ev p) (exec (handler E ev p) p)"
  have "auth q = auth p"
    using assms(2) by (cases ev) (simp_all add: q_def track_def)
  then have "to_landing \<notin> set (effects (st p) (auth p) q)"
    by (auto simp: effects_def release_def to_landing_def split: option.splits)
  moreover have "to_landing \<notin> set (handler E ev p)"
    using assms(1) by (rule handler_landing)
  ultimately show ?thesis
    by (auto simp: trace_step filter_empty_conv simp flip: q_def)
qed

lemma landing_run:
  "timers_inv p \<Longrightarrow> \<not> list_ex is_auth_change evs \<Longrightarrow>
   filter (\<lambda>c. c = to_landing) (trace (run E evs p)) = filter (\<lambda>c. c = to_landing) (trace p)"
  by (induction evs arbitrary: p) (simp_all add: landing_step timers_inv_step)

lemma step_AuthChanged:
  "mounted p \<Longrightarrow> step E (AuthChanged a) p =
     p\<lparr>auth := a,
       trace := trace p @ (if same_deps (auth p) a then [] else redirect_effect a)\<rparr>"
  by (simp add: step_def track_def commit_def effects_def redirect_effect_def exec1_def)

subsection \<open>The landing page\<close>

lemma home_exec_Nil [simp]: "home_exec [] h = h"
  by (simp add: home_exec_def)

lemma home_exec_Cons [simp]: "home_exec (c # cs) h = home_exec cs (home_exec1 h c)"
  by (simp add: home_exec_def)

lemma home_exec1_frame [simp]:
  "home_trace (home_exec1 h c) = home_trace h @ [c]" "home_auth (home_exec1 h c) = home_auth h"
  "home_mounted (home_exec1 h c) = home_mounted h" "searchParams (home_exec1 h c) = searchParams h"
  by (cases c; simp)+

lemma home_exec_frame [simp]:
  "home_trace (home_exec cs h) = home_trace h @ cs" "home_auth (home_exec cs h) = home_auth h"
  "home_mounted (home_exec cs h) = home_mounted h" "searchParams (home_exec cs h) = searchParams h"
  by (induction cs arbitrary: h) simp_all

lemma home_handler_no_push: "filter is_home_push (home_handler ev h) = []"
  by (cases ev)
     (auto simp: fetchStats_settled_def split: home_view.splits outcome.splits body.splits)

lemma home_mounted_step [simp]: "home_mounted (home_step ev h) = home_mounted h"
  by (cases ev) (simp_all add: home_step_def Let_def)

lemma home_mounted_run [simp]: "home_mounted (home_run evs h) = home_mounted h"
  by (induction evs arbitrary: h) simp_all

lemma home_auth_step:
  "home_auth (home_step ev h) =
     (case ev of HomeAuthChanged a \<Rightarrow> if home_mounted h then a else home_auth h | _ \<Rightarrow> home_auth h)"
  by (cases ev) (simp_all add: home_step_def Let_def)

lemma home_auth_run:
  "\<not> list_ex is_home_auth_change evs \<Longrightarrow> home_auth (home_run evs h) = home_auth h"
proof (induction evs arbitrary: h)
  case Nil
  then show ?case by simp
next
  case (Cons ev evs)
  then show ?case by (cases ev) (simp_all add: home_auth_step)
qed

lemma modal_no_push [simp]: "filter is_home_push (modal_effect q) = []"
  by (simp add: modal_effect_def)

lemma home_push_step:
  "\<not> is_home_auth_change ev \<Longrightarrow>
   filter is_home_push (home_trace (home_step ev h)) = filter is_home_push (home_trace h)"
  using home_handler_no_push [of ev h]
  by (cases ev) (simp_all add: home_step_def Let_def)

lemma home_push_run:
  "\<not> list_ex is_home_auth_change evs \<Longrightarrow>
   filter is_home_push (home_trace (home_run evs h)) = filter is_home_push (home_trace h)"
proof (induction evs arbitrary: h)
  case Nil
  then show ?case by simp
next
  case (Cons ev evs)
  then show ?case by (simp add: home_push_step)
qed

lemma home_mount_pushes:
  "filter is_home_push (home_trace (home_mount a q)) =
     (if \<not> loading a \<and> user a \<noteq> None then [to_dashboard] else [])"
  by (simp add: home_mount_def home_redirect_effect_def to_dashboard_def)

lemma home_step_auth_pushes:
  "home_mounted h \<Longrightarrow>
   filter is_home_push (home_trace (home_step (HomeAuthChanged a) h)) =
     filter is_home_push (home_trace h) @
     (if \<not> same_deps (home_auth h) a \<and> \<not> loading a \<and> user a \<noteq> None then [to_dashboard] else [])"
  by (auto simp: home_step_def home_redirect_effect_def to_dashboard_def Let_def)

lemma home_run_append: "home_run (evs @ evs') h = home_run evs' (home_run evs h)"
  by (induction evs arbitrary: h) simp_all

lemma render_gate: "\<not> loading a \<Longrightarrow> user a = None \<Longrightarrow> render a s = Nothing"
  by (simp add: render_def)

lemma mount_landing:
  "filter (\<lambda>c. c = to_landing) (trace (mount a)) =
     (if \<not> loading a \<and> user a = None then [to_landing] else [])"
  by (simp add: mount_def redirect_effect_def to_landing_def)

subsection \<open>Handles are new\<close>

lemma release_keeps: "list_all keeps_preview (release u)"
  by (simp add: release_def split: option.splits)

lemma effects_keeps: "list_all keeps_preview (effects s0 a0 q)"
  by (simp add: effects_def release_keeps redirect_effect_def)

lemma handler_keeps_cases:
  "list_all keeps_preview (handler E ev p) \<or>
   (mounted p \<and> (\<exists>pre f. handler E ev p = pre @ accept_file (st p) (fresh p) f \<and>
       (pre = [] \<or> pre = [PreventDefault, SetIsDragging False])))"
proof (cases ev)
  case (FilesPicked fs)
  then show ?thesis
    using image_cases [of E "st p" "fresh p" "hd fs"]
    by (cases fs) (auto simp: handleImageChange_def accept_file_def dest: form_shownD)
next
  case (Dropped fs)
  then show ?thesis
    using image_cases [of E "st p" "fresh p" "hd fs"]
    by (cases fs) (auto simp: handleDrop_def accept_file_def dest: form_shownD)
next
  case SubmitPressed
  then show ?thesis
    using submit_cases [of "st p" "user (auth p)"] by auto
next
  case (Settled out)
  then show ?thesis
    using settled_cases [of E "hd (pending p)" out]
    by (cases "pending p") (auto simp: on_success_def release_keeps)
qed (auto simp: handleDragOver_def handleDragLeave_def onDistrictSelect_def onQuantityChange_def
      onNameChange_def release_keeps split: list.splits)

lemma keeps_fresh: "list_all keeps_preview cs \<Longrightarrow> fresh (exec cs p) = fresh p"
proof (induction cs arbitrary: p)
  case Nil
  then show ?case by simp
next
  case (Cons c cs)
  then show ?case by (cases c) (simp_all add: exec1_def)
qed

lemma keeps_preview_url:
  "list_all keeps_preview cs \<Longrightarrow>
   previewUrl (foldl (\<lambda>s c. apply_cmd c s) s cs) = previewUrl s \<or>
   previewUrl (foldl (\<lambda>s c. apply_cmd c s) s cs) = None"
proof (induction cs arbitrary: s)
  case Nil
  then show ?case by simp
next
  case (Cons c cs)
  have "previewUrl (apply_cmd c s) = previewUrl s \<or> previewUrl (apply_cmd c s) = None"
    using Cons.prems by (cases c rule: keeps_preview.cases) simp_all
  with Cons.IH [of "apply_cmd c s"] Cons.prems show ?case
    by auto
qed

lemma fresh_step: "fresh (step E ev p) = fresh (exec (handler E ev p) p)"
  by (simp add: step_def commit_def keeps_fresh [OF effects_keeps])

lemma fresh_inv_step:
  assumes "fresh_inv p"
  shows "fresh_inv (step E ev p)"
  using handler_keeps_cases [of E ev p]
proof
  assume k: "list_all keeps_preview (handler E ev p)"
  have "previewUrl (st (step E ev p)) = previewUrl (st p) \<or> previewUrl (st (step E ev p)) = None"
    using keeps_preview_url [OF k, of "st p"] by (auto simp: st_step st_exec)
  with assms show ?thesis
    by (auto simp: fresh_inv_def fresh_step keeps_fresh [OF k] split: option.splits)
next
  assume "mounted p \<and> (\<exists>pre f. handler E ev p = pre @ accept_file (st p) (fresh p) f \<and>
       (pre = [] \<or> pre = [PreventDefault, SetIsDragging False]))"
  then obtain pre f where mp: "mounted p"
    and cs: "handler E ev p = pre @ accept_file (st p) (fresh p) f"
    and pre: "pre = [] \<or> pre = [PreventDefault, SetIsDragging False]"
    by auto
  have "previewUrl (st (step E ev p)) = Some (fresh p)"
    using mp pre by (auto simp: st_step cs st_exec accept_file_def)
  moreover have "fresh (step E ev p) = Suc (fresh p)"
    using pre
    by (auto simp: fresh_step cs exec_append accept_file_def exec1_def keeps_fresh [OF release_keeps])
  ultimately show ?thesis
    by (simp add: fresh_inv_def)
qed

lemma fresh_inv_run: "fresh_inv p \<Longrightarrow> fresh_inv (run E evs p)"
  by (induction evs arbitrary: p) (simp_all add: fresh_inv_step)

lemma fresh_inv_mount: "fresh_inv (mount a)"
  by (simp add: fresh_inv_def mount_def st_exec initial_def redirect_effect_def)

subsection \<open>Requests\<close>

lemma fetches_Nil: "fetches [] = []"
  by (simp add: fetches_def)

lemma fetches_Cons:
  "fetches (c # cs) = (if is_fetch c then c # fetches cs else fetches cs)"
  by (simp add: fetches_def)

lemma fetches_effects: "fetches (effects s0 a0 q) = []"
  by (simp add: effects_def redirect_effect_def fetches_Nil fetches_Cons)

lemma handler_fetches: "ev \<noteq> SubmitPressed \<Longrightarrow> fetches (handler E ev p) = []"
proof (cases ev)
  case (FilesPicked fs)
  then show ?thesis
    using image_cases [of E "st p" "fresh p" "hd fs"]
    by (cases fs) (auto simp: handleImageChange_def accept_file_def fetches_Nil fetches_Cons)
next
  case (Dropped fs)
  then show ?thesis
    using image_cases [of E "st p" "fresh p" "hd fs"]
    by (cases fs) (auto simp: handleDrop_def accept_file_def fetches_Nil fetches_Cons)
next
  case (Settled out)
  then show ?thesis
    using settled_cases [of E "hd (pending p)" out]
    by (cases "pending p") (auto simp: fetches_Nil fetches_Cons)
qed (auto simp: handleDragOver_def handleDragLeave_def onDistrictSelect_def onQuantityChange_def
      onNameChange_def fetches_Nil fetches_Cons split: list.splits)

section \<open>The claims\<close>

text \<open>
  C4.  Whatever text is entered in the quantity field, the change handler stores
  \<open>max 1 (parseInt text || 1)\<close> at once, touching nothing else and running no validation.
  The stored quantity is therefore at least 1: it is 1 when the text has no number at its
  start or a number below 1, in particular for the texts \<open>0\<close> and \<open>-5\<close> and for every text
  with no digit in it; otherwise it is the double that \<^verbatim>\<open>parseInt\<close> returns, an integer
  or infinity.
\<close>

theorem quantity_clamped_at_entry:
  assumes "form_shown p"
  shows "st (step E (QuantityTyped v) p) =
           (st p)\<lparr>treeQuantity := max 1 (num_or (parseInt v) 1)\<rparr>
       \<and> 1 \<le> treeQuantity (st (step E (QuantityTyped v) p))
       \<and> (v = lit ''0'' \<or> v = lit ''-5'' \<or> non_numeric v \<longrightarrow>
            treeQuantity (st (step E (QuantityTyped v) p)) = 1)
       \<and> trace (step E (QuantityTyped v) p) =
           trace p @ [SetTreeQuantity (max 1 (num_or (parseInt v) 1))]
       \<and> (parseInt v = None \<or> parseInt v = Some NegInf \<longrightarrow>
            treeQuantity (st (step E (QuantityTyped v) p)) = 1)
       \<and> (parseInt v = Some (Num n) \<longrightarrow>
            treeQuantity (st (step E (QuantityTyped v) p)) = Num (max 1 n))
       \<and> (parseInt v = Some PosInf \<longrightarrow>
            treeQuantity (st (step E (QuantityTyped v) p)) = PosInf)"
proof -
  have "1 \<le> max 1 (num_or (parseInt v) 1)"
    by simp
  moreover have "max 1 (num_or (Some (Num n)) 1) = Num (max 1 n)"
    by (simp add: num_or_def one_number_def max_def)
  ultimately show ?thesis
    using assms
    by (auto simp: step_QuantityTyped parseInt_zero parseInt_minus_five parseInt_non_numeric
        num_or_def)
qed

theorem quantity_clamped_at_entry_witness:
  "form_shown (mount signed_in) \<and>
   treeQuantity (st (step env0 (QuantityTyped (lit ''-5'')) (mount signed_in))) = 1 \<and>
   parseInt (lit ''abc'') = None \<and>
   treeQuantity (st (step env0 (QuantityTyped (lit ''abc'')) (mount signed_in))) = 1 \<and>
   parseInt (lit ''9007199254740993'') = Some (Num 9007199254740992) \<and>
   treeQuantity (st (step env0 (QuantityTyped (lit ''9007199254740993'')) (mount signed_in))) =
     Num 9007199254740992 \<and>
   parseInt (replicate 310 0x39) = Some PosInf \<and>
   treeQuantity (st (step env0 (QuantityTyped (replicate 310 0x39)) (mount signed_in))) = PosInf"
proof -
  have shown: "form_shown (mount signed_in)"
    by (simp add: mount_signed_in)
  have none: "parseInt (lit ''abc'') = None"
    by (rule parseInt_non_numeric) (simp add: non_numeric_def lit_def)
  note entry = quantity_clamped_at_entry [OF shown, of env0]
  have a: "treeQuantity (st (step env0 (QuantityTyped (lit ''-5'')) (mount signed_in))) = 1"
    using entry [of "lit ''-5''" 0] by blast
  have b: "treeQuantity (st (step env0 (QuantityTyped (lit ''abc'')) (mount signed_in))) = 1"
    using entry [of "lit ''abc''" 0] none by blast
  have c: "treeQuantity
      (st (step env0 (QuantityTyped (lit ''9007199254740993'')) (mount signed_in))) =
      Num 9007199254740992"
    using entry [of "lit ''9007199254740993''" 9007199254740992] parseInt_beyond_safe
    by (simp add: num_or_def)
  have d: "treeQuantity (st (step env0 (QuantityTyped (replicate 310 0x39)) (mount signed_in))) =
      PosInf"
    using entry [of "replicate 310 0x39" 0] parseInt_overflow by blast
  from shown none a b c d parseInt_beyond_safe parseInt_overflow
  show ?thesis by (intro conjI)
qed

text \<open>
  C5.  In every reachable page at most one call of \<^verbatim>\<open>handleSubmit\<close> is waiting for its
  request.  While the flag \<open>submitting\<close> is up, or a request is outstanding, the submit
  control is disabled and pressing it changes nothing; and no event at all starts a
  request then.
\<close>

theorem submit_guarded_while_in_flight:
  "length (pending (run E evs (mount a))) \<le> 1 \<and>
   (submitting (st (run E evs (mount a))) \<or> pending (run E evs (mount a)) \<noteq> [] \<longrightarrow>
      step E SubmitPressed (run E evs (mount a)) = run E evs (mount a) \<and>
      fetches (trace (step E ev (run E evs (mount a)))) = fetches (trace (run E evs (mount a))))"
proof -
  define p where "p = run E evs (mount a)"
  have inv: "pend_inv p"
    by (simp add: p_def pend_inv_run pend_inv_mount)
  then have one: "length (pending p) \<le> 1"
    by (simp add: pend_inv_def)
  have off: "\<not> submit_enabled p" if "submitting (st p) \<or> pending p \<noteq> []"
    using that inv by (auto simp: pend_inv_def submit_enabled_iff form_shown_iff)
  have "fetches (trace (step E ev p)) = fetches (trace p)"
    if "submitting (st p) \<or> pending p \<noteq> []"
  proof (cases "ev = SubmitPressed")
    case True
    with off [OF that] show ?thesis
      by (simp add: step_SubmitPressed_disabled)
  next
    case False
    then show ?thesis
      by (simp add: trace_step handler_fetches fetches_effects)
  qed
  with off one show ?thesis
    by (simp add: step_SubmitPressed_disabled flip: p_def)
qed

theorem submit_guarded_while_in_flight_witness:
  "submitting (st (run env0 (filled @ [SubmitPressed]) (mount signed_in))) \<and>
   length (pending (run env0 (filled @ [SubmitPressed]) (mount signed_in))) = 1 \<and>
   step env0 SubmitPressed (run env0 (filled @ [SubmitPressed]) (mount signed_in)) =
     run env0 (filled @ [SubmitPressed]) (mount signed_in)"
proof -
  have "submitting (st in_flight)" and "length (pending in_flight) = 1"
    by (simp_all add: in_flight_eq)
  with submit_guarded_while_in_flight [of env0 "filled @ [SubmitPressed]" signed_in SubmitPressed]
  show ?thesis by (simp add: in_flight_def)
qed

text \<open>
  C8.  Once the component has been torn down, no preview handle is live, whatever happened
  before the teardown and whatever settles after it: the cleanup of the preview effect
  releases the handle that the state names.
\<close>

theorem teardown_releases_preview:
  "live (trace (run E (evs @ Unmount # evs') (mount a))) = [] \<and>
   (mounted (run E evs (mount a)) \<longrightarrow>
      handler E Unmount (run E evs (mount a)) =
        release (previewUrl (st (run E evs (mount a)))))"
proof -
  define p where "p = run E evs (mount a)"
  have "\<not> mounted (step E Unmount p)"
    by (simp add: mounted_step)
  then have "\<not> mounted (run E evs' (step E Unmount p))"
    by (rule mounted_run_Unmount)
  moreover have "live_inv (run E evs' (step E Unmount p))"
    by (simp add: p_def live_inv_run live_inv_step live_inv_mount)
  ultimately have "live (trace (run E evs' (step E Unmount p))) = []"
    by (simp add: live_inv_def)
  then show ?thesis
    by (simp add: run_append p_def)
qed

theorem teardown_releases_preview_witness:
  "mounted (run env0 filled (mount signed_in)) \<and>
   live (trace (run env0 filled (mount signed_in))) = [0] \<and>
   handler env0 Unmount (run env0 filled (mount signed_in)) = [RevokeImagePreview 0] \<and>
   live (trace (run env0 (filled @ Unmount # [Settled (Responded ok_response)])
     (mount signed_in))) = []"
proof -
  have "mounted (run env0 filled (mount signed_in))"
    and "live (trace (run env0 filled (mount signed_in))) = [0]"
    and "release (previewUrl (st (run env0 filled (mount signed_in)))) = [RevokeImagePreview 0]"
    by (simp_all add: filled_run live_def accept_file_def initial_def release_def ready_def)
  with teardown_releases_preview
         [of env0 filled "[Settled (Responded ok_response)]" signed_in]
  show ?thesis by simp
qed

text \<open>
  C6.  In a reachable page that shows a preview, choosing another valid file makes
  \<^verbatim>\<open>handleImageFile\<close> release the old handle first, then store the file and create the
  new preview.  After every single command of the whole history at most one handle is
  live, and afterwards the live handle is the new one, which differs from the old.
\<close>

theorem one_preview_handle:
  assumes "form_shown (run E evs (mount a))"
    and "valid (validateImageFile E f)"
    and "previewUrl (st (run E evs (mount a))) = Some h"
  shows "handleImageFile E (st (run E evs (mount a))) (fresh (run E evs (mount a))) f =
           [RevokeImagePreview h, SetImage (Some f),
            CreateImagePreview (fresh (run E evs (mount a))) f,
            SetPreviewUrl (Some (fresh (run E evs (mount a)))), SetError None, SetSuccess None]
       \<and> single_live (trace (step E (FilesPicked [f]) (run E evs (mount a))))
       \<and> live (trace (step E (FilesPicked [f]) (run E evs (mount a)))) =
           [fresh (run E evs (mount a))]
       \<and> previewUrl (st (step E (FilesPicked [f]) (run E evs (mount a)))) =
           Some (fresh (run E evs (mount a)))
       \<and> fresh (run E evs (mount a)) \<noteq> h"
proof -
  define p where "p = run E evs (mount a)"
  have inv: "live_inv p"
    by (simp add: p_def live_inv_run live_inv_mount)
  have "fresh_inv p"
    by (simp add: p_def fresh_inv_run fresh_inv_mount)
  then have new: "fresh p \<noteq> h"
    using assms(3) by (simp add: fresh_inv_def p_def)
  have shown: "form_shown p" and url: "previewUrl (st p) = Some h"
    using assms by (simp_all add: p_def)
  then have "set (live (trace p)) \<subseteq> {h}"
    using inv by (simp add: live_inv_def form_shown_iff)
  then have gone: "removeAll h (live (trace p)) = []"
    by (rule removeAll_only)
  have cmds: "handleImageFile E (st p) (fresh p) f =
      [RevokeImagePreview h, SetImage (Some f), CreateImagePreview (fresh p) f,
       SetPreviewUrl (Some (fresh p)), SetError None, SetSuccess None]"
    using assms(2) url by (simp add: handleImageFile_def accept_file_def release_def)
  have "live_inv (step E (FilesPicked [f]) p)"
    using inv by (rule live_inv_step)
  then have single: "single_live (trace (step E (FilesPicked [f]) p))"
    by (simp add: live_inv_def)
  have now: "live (trace (step E (FilesPicked [f]) p)) = [fresh p]"
    using gone by (simp add: step_FilesPicked [OF shown assms(2)] live_append accept_file_def
        release_def url)
  have "previewUrl (st (step E (FilesPicked [f]) p)) = Some (fresh p)"
    by (simp add: step_FilesPicked [OF shown assms(2)])
  with cmds single now new show ?thesis
    by (simp add: p_def)
qed

theorem one_preview_handle_witness:
  "form_shown (run env0 filled (mount signed_in)) \<and>
   valid (validateImageFile env0 file1) \<and>
   previewUrl (st (run env0 filled (mount signed_in))) = Some 0 \<and>
   live (trace (run env0 filled (mount signed_in))) = [0] \<and>
   live (trace (step env0 (FilesPicked [file1]) (run env0 filled (mount signed_in)))) = [1]"
proof -
  have a: "form_shown (run env0 filled (mount signed_in))"
    and b: "previewUrl (st (run env0 filled (mount signed_in))) = Some 0"
    and c: "live (trace (run env0 filled (mount signed_in))) = [0]"
    and d: "fresh (run env0 filled (mount signed_in)) = 1"
    by (simp_all add: filled_run live_def accept_file_def initial_def release_def ready_def)
  from one_preview_handle [OF a valid_file1 b] a b c d valid_file1
  show ?thesis by simp
qed

text \<open>
  C10.  When the validation pass succeeds, \<^verbatim>\<open>handleSubmit\<close> raises \<open>submitting\<close> and only
  then issues the request.  However the request settles (rejected, any response), the
  last command of the resumed call is the \<^verbatim>\<open>finally\<close> block's reset, and the flag is
  down afterwards.
\<close>

theorem submitting_flag_bracket:
  "(submit_enabled p \<and> selectedDistrict (st p) = Some d \<and> image_file (st p) = Some img \<and>
    trim (treeName (st p)) \<noteq> [] \<and> 1 \<le> treeQuantity (st p) \<longrightarrow>
      handler E SubmitPressed p =
        [PreventDefault, SetError None, SetSuccess None, SetSubmitting True,
         Fetch (lit ''/api/plant'') (lit ''POST'') (formData (st p) (user (auth p)) d img)] \<and>
      submitting (st (step E SubmitPressed p)) \<and>
      pending (step E SubmitPressed p) = pending p @ [st p])
   \<and> (mounted q \<and> pending q \<noteq> [] \<longrightarrow>
      last (handler E (Settled out) q) = SetSubmitting False \<and>
      \<not> submitting (st (step E (Settled out) q)) \<and>
      pending (step E (Settled out) q) = tl (pending q))"
proof (intro conjI impI)
  assume a: "submit_enabled p \<and> selectedDistrict (st p) = Some d \<and> image_file (st p) = Some img \<and>
    trim (treeName (st p)) \<noteq> [] \<and> 1 \<le> treeQuantity (st p)"
  then show "handler E SubmitPressed p =
        [PreventDefault, SetError None, SetSuccess None, SetSubmitting True,
         Fetch (lit ''/api/plant'') (lit ''POST'') (formData (st p) (user (auth p)) d img)]"
    by (simp add: handleSubmit_def not_less)
  from a show "submitting (st (step E SubmitPressed p))"
    by (simp add: step_SubmitPressed_passing)
  from a show "pending (step E SubmitPressed p) = pending p @ [st p]"
    by (simp add: step_SubmitPressed_passing)
next
  assume b: "mounted q \<and> pending q \<noteq> []"
  then obtain c cs where pq: "pending q = c # cs"
    by (cases "pending q") auto
  show "last (handler E (Settled out) q) = SetSubmitting False"
    by (simp add: pq handleSubmit_settled_def)
  from b show "\<not> submitting (st (step E (Settled out) q))"
    using handler_submitting [of E "Settled out" q] by (simp add: st_step)
  show "pending (step E (Settled out) q) = tl (pending q)"
    by (simp add: pending_step)
qed

theorem submitting_flag_bracket_witness:
  "submit_enabled (run env0 filled (mount signed_in)) \<and>
   submitting (st (step env0 SubmitPressed (run env0 filled (mount signed_in)))) \<and>
   mounted in_flight \<and> pending in_flight \<noteq> [] \<and>
   \<not> submitting (st (step env0 (Settled (Rejected (lit ''Failed to fetch''))) in_flight))"
proof -
  have a: "submit_enabled (run env0 filled (mount signed_in)) \<and>
      selectedDistrict (st (run env0 filled (mount signed_in))) = Some district0 \<and>
      image_file (st (run env0 filled (mount signed_in))) = Some file0 \<and>
      trim (treeName (st (run env0 filled (mount signed_in)))) \<noteq> [] \<and>
      1 \<le> treeQuantity (st (run env0 filled (mount signed_in)))"
    by (simp add: filled_run ready_def trim_Neem lit_Neem)
  have b: "mounted in_flight \<and> pending in_flight \<noteq> []"
    by (simp add: in_flight_eq)
  from submitting_flag_bracket
    [of "run env0 filled (mount signed_in)" district0 file0 env0 in_flight
        "Rejected (lit ''Failed to fetch'')"] a b
  show ?thesis by blast
qed

text \<open>
  C3.  The validation pass of \<^verbatim>\<open>handleSubmit\<close> is the list of checks of the
  specification, tried in its order: district chosen, photo attached, tree name not blank
  after trimming, quantity at least 1.  The first check that fails puts its message in the
  error banner and ends the call: nothing else changes, no request is issued and no call is
  left waiting.  When all four hold, exactly one request is issued.
\<close>

theorem validation_pass_in_order:
  assumes "submit_enabled p"
  shows "(case first_failing (st p) of
            Some m \<Rightarrow>
              step E SubmitPressed p =
                p\<lparr>st := (st p)\<lparr>error := Some m, success := None\<rparr>,
                  trace := trace p @
                    [PreventDefault, SetError None, SetSuccess None, SetError (Some m)]\<rparr> \<and>
              fetches (trace (step E SubmitPressed p)) = fetches (trace p) \<and>
              pending (step E SubmitPressed p) = pending p
          | None \<Rightarrow>
              length (fetches (trace (step E SubmitPressed p))) =
                Suc (length (fetches (trace p))) \<and>
              pending (step E SubmitPressed p) = pending p @ [st p])"
proof (cases "first_failing (st p)")
  case None
  then obtain d img where "selectedDistrict (st p) = Some d" "image_file (st p) = Some img"
    "trim (treeName (st p)) \<noteq> []" "1 \<le> treeQuantity (st p)"
    by (auto simp: first_failing_unfold split: if_splits)
  with assms None show ?thesis
    by (simp add: step_SubmitPressed_passing fetches_def)
next
  case (Some m)
  with assms show ?thesis
    by (simp add: step_SubmitPressed_failing fetches_def)
qed

theorem validation_pass_in_order_witness:
  "submit_enabled (run env0 no_photo (mount signed_in)) \<and>
   first_failing (st (run env0 no_photo (mount signed_in))) =
     Some (lit ''Please upload a tree photo'') \<and>
   error (st (step env0 SubmitPressed (run env0 no_photo (mount signed_in)))) =
     Some (lit ''Please upload a tree photo'') \<and>
   fetches (trace (step env0 SubmitPressed (run env0 no_photo (mount signed_in)))) = []"
proof -
  have a: "submit_enabled (run env0 no_photo (mount signed_in))"
    by (simp add: no_photo_run initial_def)
  have b: "first_failing (st (run env0 no_photo (mount signed_in))) =
      Some (lit ''Please upload a tree photo'')"
    by (simp add: no_photo_run initial_def first_failing_unfold)
  have c: "fetches (trace (run env0 no_photo (mount signed_in))) = []"
    by (simp add: no_photo_run fetches_def)
  from validation_pass_in_order [OF a, of env0] a b c
  show ?thesis by (simp add: fetches_def)
qed

text \<open>
  C1, as amended.  When the request of a waiting \<^verbatim>\<open>handleSubmit\<close> call is answered with a
  status from 200 to 299 and a body that parses as JSON, the mounted page has the draft
  cleared (no district, no file, no preview, empty name, quantity 1), the success message
  set, the flag down, no preview handle live, and exactly one timer set, of 2000
  milliseconds, that pushes the confirmation page.
\<close>

theorem success_clears_draft:
  assumes "p = run E evs (mount a)" and "mounted p" and "pending p \<noteq> []"
    and "ok res" and "body res = Json j"
    and "p' = step E (Settled (Responded res)) p"
  shows "draft (st p') = (None, None, None, [], 1)
       \<and> success (st p') = Some (lit ''Tree contribution submitted successfully!'')
       \<and> \<not> submitting (st p')
       \<and> live (trace p') = []
       \<and> handler E (Settled (Responded res)) p =
           on_success (hd (pending p)) @ [SetSubmitting False]
       \<and> filter is_timeout (handler E (Settled (Responded res)) p) =
           [SetTimeout (lit ''/contribution'') 2000]
       \<and> timers p' = timers p @ [lit ''/contribution'']"
proof -
  obtain c cs where pend: "pending p = c # cs"
    using assms(3) by (cases "pending p") auto
  have rest: "try_rest E c (Responded res) = Inr (on_success c)"
    using assms(4,5) by (rule try_rest_ok)
  note eq = step_Settled_success [OF assms(2) pend rest]
  have "live_inv p'"
    unfolding assms(6) assms(1) by (intro live_inv_step live_inv_run live_inv_mount)
  moreover have "mounted p'" and "previewUrl (st p') = None"
    using assms(2) by (simp_all add: assms(6) eq)
  ultimately have "live (trace p') = []"
    by (simp add: live_inv_def)
  moreover have "handler E (Settled (Responded res)) p = on_success c @ [SetSubmitting False]"
    by (simp add: pend handleSubmit_settled_def rest)
  ultimately show ?thesis
    by (simp add: assms(6) eq draft_def pend timeouts_on_success)
qed

theorem success_clears_draft_witness:
  "mounted in_flight \<and> pending in_flight \<noteq> [] \<and> ok ok_response \<and>
   previewUrl (st in_flight) = Some 0 \<and> live (trace in_flight) = [0] \<and>
   draft (st submitted) = (None, None, None, [], 1) \<and> live (trace submitted) = [] \<and>
   timers submitted = [lit ''/contribution'']"
proof -
  have a: "mounted in_flight" "pending in_flight \<noteq> []" "ok ok_response"
    "body ok_response = Json (JObj [(lit ''success'', JBool True)])"
    "previewUrl (st in_flight) = Some 0" "timers in_flight = []"
    by (simp_all add: in_flight_eq ok_def ok_response_def ready_def)
  have b: "live (trace in_flight) = [0]"
    by (simp add: in_flight_eq filled_run live_def accept_file_def initial_def release_def)
  from success_clears_draft [OF in_flight_def a(1,2,3,4) submitted_def] a b
  show ?thesis by simp
qed

text \<open>
  C1 as stated fails: a response with status 204 has no body, \<^verbatim>\<open>res.json()\<close> rejects
  before \<^verbatim>\<open>res.ok\<close> is looked at, and the draft stays as it was, with no success
  message and no timer.
\<close>

theorem success_clears_draft_counterexample:
  "ok empty_response \<and> mounted in_flight \<and> pending in_flight \<noteq> [] \<and>
   \<not> (draft (st (step env0 (Settled (Responded empty_response)) in_flight)) =
        (None, None, None, [], 1)) \<and>
   success (st (step env0 (Settled (Responded empty_response)) in_flight)) = None \<and>
   timers (step env0 (Settled (Responded empty_response)) in_flight) = []"
proof -
  have rest: "try_rest env0 ready (Responded empty_response) = Inl (lit ''Unexpected end of JSON input'')"
    by (simp add: try_rest_def empty_response_def)
  have m: "mounted in_flight" and pe: "pending in_flight = [ready]"
    by (simp_all add: in_flight_eq)
  show ?thesis
    unfolding step_Settled_failure [OF m pe rest]
    by (simp add: in_flight_eq ready_def draft_def ok_def empty_response_def)
qed

text \<open>
  C2, as amended.  When the request of a waiting \<^verbatim>\<open>handleSubmit\<close> call is answered with a
  status outside 200 to 299, the draft is left as it was, the flag goes down and the
  submit control is enabled again, and no request or timer is added.  The error banner
  shows the \<^verbatim>\<open>error\<close> member of the body, converted to a string, when the body parses
  as JSON and that member is truthy: the member itself when it is a non-empty string.  It
  shows the generic message when the member is absent or falsy, or converts to the empty
  string.  When the handler throws before it has a message (the body does not parse, the
  body is null, the member cannot be converted to a string), the banner shows the message
  of what was thrown, and the generic message when that is empty.
\<close>

theorem failure_keeps_draft:
  assumes "mounted p" and "pending p \<noteq> []" and "\<not> ok res"
    and "p' = step E (Settled (Responded res)) p"
  shows "draft (st p') = draft (st p)
       \<and> \<not> submitting (st p')
       \<and> (form_shown p \<longrightarrow> submit_enabled p')
       \<and> fetches (trace p') = fetches (trace p)
       \<and> timers p' = timers p
       \<and> (body res = Json j \<and> get_error j = Inr (Some (JStr m)) \<and> m \<noteq> [] \<longrightarrow>
            error (st p') = Some m)
       \<and> (body res = Json j \<and> get_error j = Inr (Some x) \<and> truthy x \<and> to_str x = Some m \<longrightarrow>
            error (st p') =
              Some (if m = [] then lit ''Failed to submit contribution'' else m))
       \<and> (body res = Json j \<and> get_error j = Inr (Some x) \<and> \<not> truthy x \<longrightarrow>
            error (st p') = Some (lit ''Failed to submit contribution''))
       \<and> (body res = Json j \<and> get_error j = Inr None \<longrightarrow>
            error (st p') = Some (lit ''Failed to submit contribution''))
       \<and> (body res = Json j \<and> get_error j = Inr (Some x) \<and> truthy x \<and> to_str x = None \<longrightarrow>
            error (st p') =
              Some (if to_primitive_message E = [] then lit ''Failed to submit contribution''
                    else to_primitive_message E))
       \<and> (body res = Json JNull \<longrightarrow>
            error (st p') =
              Some (if null_read_message E = [] then lit ''Failed to submit contribution''
                    else null_read_message E))
       \<and> (body res = NotJson t \<longrightarrow>
            error (st p') =
              Some (if t = [] then lit ''Failed to submit contribution'' else t))"
proof -
  obtain c cs where pend: "pending p = c # cs"
    using assms(2) by (cases "pending p") auto
  define w where "w = (case body res of NotJson t \<Rightarrow> t | Json j \<Rightarrow> thrown_message E j)"
  have rest: "try_rest E c (Responded res) = Inl w"
    using assms(3) by (simp add: try_rest_not_ok w_def)
  note eq = step_Settled_failure [OF assms(1) pend rest]
  have 1: "draft (st p') = draft (st p)" "\<not> submitting (st p')"
    "fetches (trace p') = fetches (trace p)" "timers p' = timers p"
    by (simp_all add: assms(4) eq draft_def fetches_def)
  have 2: "form_shown p \<longrightarrow> submit_enabled p'"
    by (simp add: assms(4) eq submit_enabled_iff form_shown_iff)
  have 3: "error (st p') = Some (str_or (Some w) (lit ''Failed to submit contribution''))"
    by (simp add: assms(4) eq)
  have a: "error (st p') = Some m"
    if "body res = Json j \<and> get_error j = Inr (Some (JStr m)) \<and> m \<noteq> []"
    using that by (simp add: 3 w_def thrown_message_def str_or_def)
  have b: "error (st p') = Some (if m = [] then lit ''Failed to submit contribution'' else m)"
    if "body res = Json j \<and> get_error j = Inr (Some x) \<and> truthy x \<and> to_str x = Some m"
    using that by (simp add: 3 w_def thrown_message_def str_or_def)
  have c: "error (st p') = Some (lit ''Failed to submit contribution'')"
    if "body res = Json j \<and> get_error j = Inr (Some x) \<and> \<not> truthy x"
    using that by (simp add: 3 w_def thrown_message_def str_or_def fallback_nonempty)
  have d: "error (st p') = Some (lit ''Failed to submit contribution'')"
    if "body res = Json j \<and> get_error j = Inr None"
    using that by (simp add: 3 w_def thrown_message_def str_or_def fallback_nonempty)
  have e: "error (st p') =
      Some (if to_primitive_message E = [] then lit ''Failed to submit contribution''
            else to_primitive_message E)"
    if "body res = Json j \<and> get_error j = Inr (Some x) \<and> truthy x \<and> to_str x = None"
    using that by (simp add: 3 w_def thrown_message_def str_or_def)
  have f: "error (st p') =
      Some (if null_read_message E = [] then lit ''Failed to submit contribution''
            else null_read_message E)"
    if "body res = Json JNull"
    using that by (simp add: 3 w_def thrown_message_def str_or_def)
  have g: "error (st p') = Some (if t = [] then lit ''Failed to submit contribution'' else t)"
    if "body res = NotJson t"
    using that by (simp add: 3 w_def str_or_def)
  from 1 2 a b c d e f g show ?thesis by blast
qed

theorem failure_keeps_draft_witness:
  "mounted in_flight \<and> pending in_flight \<noteq> [] \<and> form_shown in_flight \<and>
   \<not> ok error_response \<and> \<not> ok code_response \<and> \<not> ok blank_response \<and>
   \<not> ok bare_response \<and> \<not> ok hidden_response \<and> \<not> ok null_response \<and>
   \<not> ok html_response \<and>
   draft (st (step env0 (Settled (Responded error_response)) in_flight)) = draft (st in_flight) \<and>
   submit_enabled (step env0 (Settled (Responded error_response)) in_flight) \<and>
   error (st (step env0 (Settled (Responded error_response)) in_flight)) =
     Some (lit ''district required'') \<and>
   error (st (step env0 (Settled (Responded code_response)) in_flight)) = Some (lit ''404'') \<and>
   error (st (step env0 (Settled (Responded blank_response)) in_flight)) =
     Some (lit ''Failed to submit contribution'') \<and>
   error (st (step env0 (Settled (Responded bare_response)) in_flight)) =
     Some (lit ''Failed to submit contribution'') \<and>
   error (st (step env0 (Settled (Responded hidden_response)) in_flight)) =
     Some (lit ''Cannot convert object to primitive value'') \<and>
   error (st (step env0 (Settled (Responded null_response)) in_flight)) =
     Some (lit ''Cannot read properties of null'') \<and>
   error (st (step env0 (Settled (Responded html_response)) in_flight)) =
     Some (lit ''Unexpected token <'')"
proof -
  have a: "mounted in_flight" "pending in_flight \<noteq> []" "form_shown in_flight"
    by (simp_all add: in_flight_eq)
  have b: "\<not> ok error_response" "\<not> ok code_response" "\<not> ok blank_response"
    "\<not> ok bare_response" "\<not> ok hidden_response" "\<not> ok null_response" "\<not> ok html_response"
    by (simp_all add: ok_def error_response_def code_response_def blank_response_def
        bare_response_def hidden_response_def null_response_def html_response_def)
  have c: "body error_response = Json (JObj [(lit ''error'', JStr (lit ''district required''))])"
    "body code_response = Json (JObj [(lit ''error'', JNum False (lit ''404''))])"
    "body blank_response = Json (JObj [(lit ''error'', JStr [])])"
    "body bare_response = Json (JObj [(lit ''message'', JStr (lit ''down''))])"
    "body hidden_response = Json (JObj [(lit ''error'', JObj [(lit ''toString'', JBool True)])])"
    "body null_response = Json JNull"
    "body html_response = NotJson (lit ''Unexpected token <'')"
    by (simp_all add: error_response_def code_response_def blank_response_def
        bare_response_def hidden_response_def null_response_def html_response_def)
  have d: "get_error (JObj [(lit ''error'', y)]) = Inr (Some y)"
    "get_error (JObj [(lit ''message'', JStr (lit ''down''))]) = Inr None" for y
    by (simp_all add: lit_def)
  have e: "lit ''district required'' \<noteq> []" "lit ''404'' \<noteq> []" "lit ''Unexpected token <'' \<noteq> []"
    "to_primitive_message env0 = lit ''Cannot convert object to primitive value''"
    "null_read_message env0 = lit ''Cannot read properties of null''"
    "lit ''Cannot convert object to primitive value'' \<noteq> []"
    "lit ''Cannot read properties of null'' \<noteq> []"
    by (simp_all add: lit_def env0_def)
  have f: "to_str (JObj [(lit ''toString'', JBool True)]) = None"
    "to_str (JNum False (lit ''404'')) = Some (lit ''404'')"
    by simp_all
  note inst = failure_keeps_draft [OF a(1,2) _ refl, where E = env0]
  from inst [OF b(1), of "JObj [(lit ''error'', JStr (lit ''district required''))]"
             "lit ''district required''" JNull "[]"]
    inst [OF b(2), of "JObj [(lit ''error'', JNum False (lit ''404''))]"
             "lit ''404''" "JNum False (lit ''404'')" "[]"]
    inst [OF b(3), of "JObj [(lit ''error'', JStr [])]" "[]" "JStr []" "[]"]
    inst [OF b(4), of "JObj [(lit ''message'', JStr (lit ''down''))]" "[]" JNull "[]"]
    inst [OF b(5), of "JObj [(lit ''error'', JObj [(lit ''toString'', JBool True)])]" "[]"
             "JObj [(lit ''toString'', JBool True)]" "[]"]
    inst [OF b(6), of JNull "[]" JNull "[]"]
    inst [OF b(7), of JNull "[]" JNull "lit ''Unexpected token <''"]
    a b c d e f
  show ?thesis by simp
qed

text \<open>
  C2 as stated fails: for a 502 answer with an HTML body there is no \<^verbatim>\<open>error\<close> member,
  yet the banner shows the message of the parse error, not the generic message.
\<close>

theorem failure_keeps_draft_counterexample:
  "\<not> ok html_response \<and> mounted in_flight \<and> pending in_flight \<noteq> [] \<and>
   body html_response = NotJson (lit ''Unexpected token <'') \<and>
   error (st (step env0 (Settled (Responded html_response)) in_flight)) =
     Some (lit ''Unexpected token <'') \<and>
   lit ''Unexpected token <'' \<noteq> lit ''Failed to submit contribution''"
proof -
  have rest: "try_rest env0 ready (Responded html_response) = Inl (lit ''Unexpected token <'')"
    by (simp add: try_rest_def html_response_def)
  have m: "mounted in_flight" and pe: "pending in_flight = [ready]"
    by (simp_all add: in_flight_eq)
  have ne: "lit ''Unexpected token <'' \<noteq> lit ''Failed to submit contribution''"
    by (simp add: lit_def)
  show ?thesis
    unfolding step_Settled_failure [OF m pe rest]
    using ne by (simp add: in_flight_eq ok_def html_response_def str_or_def lit_def)
qed

text \<open>
  C9, as amended.  After a successful submission the submit control is enabled again, and
  a press of it before the timer fires is handled like any other press, on the draft as it
  is then.  On the form as the submission left it, the validation pass fails at the
  district: no request is issued, no call is left waiting, the timer and the cleared draft
  stay, but the success banner is removed and the error banner reads
  \<open>Please select a district\<close>.  The same holds, with the message of the first failing
  check, whatever has been entered since, as long as a check fails.  Once the form has
  been filled in again so that every check holds, the press issues a new request.  The
  press is ignored only while the control is disabled or the form is not shown.
\<close>

theorem resubmit_after_success:
  assumes "form_shown p" and "pending p \<noteq> []" and "ok res" and "body res = Json j"
    and "p' = step E (Settled (Responded res)) p"
    and "q = run E evs p'"
    and "q' = step E SubmitPressed q"
  shows "submit_enabled p'
       \<and> timers p' = timers p @ [lit ''/contribution'']
       \<and> first_failing (st p') = Some (lit ''Please select a district'')
       \<and> (submit_enabled q \<and> first_failing (st q) = Some m \<longrightarrow>
            fetches (trace q') = fetches (trace q) \<and> pending q' = pending q \<and>
            timers q' = timers q \<and> draft (st q') = draft (st q) \<and>
            success (st q') = None \<and> error (st q') = Some m)
       \<and> (submit_enabled q \<and> selectedDistrict (st q) = None \<longrightarrow>
            fetches (trace q') = fetches (trace q) \<and>
            error (st q') = Some (lit ''Please select a district''))
       \<and> (submit_enabled q \<and> first_failing (st q) = None \<longrightarrow>
            length (fetches (trace q')) = Suc (length (fetches (trace q))) \<and>
            pending q' = pending q @ [st q] \<and> submitting (st q'))
       \<and> (\<not> submit_enabled q \<longrightarrow> q' = q)"
proof -
  obtain c cs where pend: "pending p = c # cs"
    using assms(2) by (cases "pending p") auto
  have m: "mounted p"
    using assms(1) by (simp add: form_shown_iff)
  have rest: "try_rest E c (Responded res) = Inr (on_success c)"
    using assms(3,4) by (rule try_rest_ok)
  note eq = step_Settled_success [OF m pend rest]
  have 1: "submit_enabled p'" "timers p' = timers p @ [lit ''/contribution'']"
    "first_failing (st p') = Some (lit ''Please select a district'')"
    using assms(1) by (simp_all add: assms(5) eq submit_enabled_iff form_shown_iff
        first_failing_unfold)
  have 2: "fetches (trace q') = fetches (trace q) \<and> pending q' = pending q \<and>
      timers q' = timers q \<and> draft (st q') = draft (st q) \<and>
      success (st q') = None \<and> error (st q') = Some w"
    if "submit_enabled q \<and> first_failing (st q) = Some w" for w
    using that by (simp add: assms(7) step_SubmitPressed_failing draft_def fetches_def)
  have 3: "fetches (trace q') = fetches (trace q) \<and>
      error (st q') = Some (lit ''Please select a district'')"
    if "submit_enabled q \<and> selectedDistrict (st q) = None"
    using that 2 [of "lit ''Please select a district''"] by (simp add: first_failing_unfold)
  have 4: "length (fetches (trace q')) = Suc (length (fetches (trace q))) \<and>
      pending q' = pending q @ [st q] \<and> submitting (st q')"
    if "submit_enabled q \<and> first_failing (st q) = None"
  proof -
    from that obtain d img where "selectedDistrict (st q) = Some d" "image_file (st q) = Some img"
      "trim (treeName (st q)) \<noteq> []" "1 \<le> treeQuantity (st q)"
      by (auto simp: first_failing_unfold not_less split: if_splits)
    with that show ?thesis
      by (simp add: assms(7) step_SubmitPressed_passing fetches_def)
  qed
  have 5: "q' = q" if "\<not> submit_enabled q"
    using that by (simp add: assms(7) step_SubmitPressed_disabled)
  from 1 2 [of m] 3 4 5 show ?thesis by blast
qed

theorem resubmit_after_success_witness:
  "form_shown in_flight \<and> pending in_flight \<noteq> [] \<and> ok ok_response \<and>
   timers submitted = [lit ''/contribution''] \<and>
   submit_enabled submitted \<and> selectedDistrict (st submitted) = None \<and>
   first_failing (st submitted) = Some (lit ''Please select a district'') \<and>
   fetches (trace (step env0 SubmitPressed submitted)) = fetches (trace submitted) \<and>
   error (st (step env0 SubmitPressed submitted)) = Some (lit ''Please select a district'') \<and>
   submit_enabled (run env0 filled submitted) \<and>
   first_failing (st (run env0 filled submitted)) = None \<and>
   length (fetches (trace (step env0 SubmitPressed (run env0 filled submitted)))) =
     Suc (length (fetches (trace (run env0 filled submitted)))) \<and>
   \<not> submit_enabled (run env0 (filled @ [SubmitPressed]) submitted) \<and>
   step env0 SubmitPressed (run env0 (filled @ [SubmitPressed]) submitted) =
     run env0 (filled @ [SubmitPressed]) submitted"
proof -
  have a: "form_shown in_flight" "pending in_flight \<noteq> []" "ok ok_response"
    "body ok_response = Json (JObj [(lit ''success'', JBool True)])"
    by (simp_all add: in_flight_eq ok_def ok_response_def)
  have b: "timers submitted = [lit ''/contribution'']" "submit_enabled submitted"
    "selectedDistrict (st submitted) = None"
    by (simp_all add: submitted_eq in_flight_eq)
  have e: "mounted submitted" "auth submitted = signed_in"
    by (simp_all add: submitted_eq in_flight_eq)
  have f: "st (run env0 filled submitted) = ready\<lparr>previewUrl := Some 1\<rparr>"
    by (simp add: refilled_run)
  have c: "submit_enabled (run env0 filled submitted)"
    "first_failing (st (run env0 filled submitted)) = None"
    by (simp_all add: f first_failing_unfold ready_def trim_Neem lit_Neem submit_enabled_iff
        form_shown_iff)
       (simp_all add: refilled_run e signed_in_def)
  have "submitting (st (step env0 SubmitPressed (run env0 filled submitted)))"
    by (subst step_SubmitPressed_passing [OF c(1), where d = district0 and img = file0])
       (simp_all add: f ready_def trim_Neem lit_Neem)
  then have d: "\<not> submit_enabled (run env0 (filled @ [SubmitPressed]) submitted)"
    by (simp add: run_append submit_enabled_iff)
  note again = resubmit_after_success [OF a submitted_def]
  from again [OF refl refl, of "[]" "lit ''Please select a district''"]
    again [OF refl refl, of filled "[]"]
    again [OF refl refl, of "filled @ [SubmitPressed]" "[]"]
    a b c d
  show ?thesis by simp
qed

text \<open>
  C9 as stated fails: on the page right after a successful submission, with the timer
  still pending, the second press replaces the success banner by an error banner.
\<close>

theorem resubmit_after_success_counterexample:
  "timers submitted = [lit ''/contribution''] \<and>
   success (st submitted) = Some (lit ''Tree contribution submitted successfully!'') \<and>
   error (st submitted) = None \<and>
   success (st (step env0 SubmitPressed submitted)) = None \<and>
   error (st (step env0 SubmitPressed submitted)) = Some (lit ''Please select a district'') \<and>
   render (auth (step env0 SubmitPressed submitted)) (st (step env0 SubmitPressed submitted)) \<noteq>
     render (auth submitted) (st submitted)"
proof -
  have en: "submit_enabled submitted"
    by (simp add: submitted_eq in_flight_eq)
  have ff: "first_failing (st submitted) = Some (lit ''Please select a district'')"
    by (simp add: submitted_eq first_failing_unfold)
  have ne: "lit ''Please select a district'' \<noteq> []"
    by (simp add: lit_def)
  show ?thesis
    unfolding step_SubmitPressed_failing [OF en ff]
    using ne by (simp add: submitted_eq in_flight_eq ready_def render_def banner_def signed_in_def)
qed

text \<open>
  C7.  On the plant page, once the session is resolved with no identity (at mount, or by
  a change of session), every later render shows nothing and exactly one push of the
  landing page with the \<^verbatim>\<open>auth_required\<close> marker has been added, however many renders
  follow without a change of session.  On the landing page, once the session is resolved
  with an identity, every later render shows nothing and exactly one push of the
  dashboard has been added.
\<close>

theorem session_gate:
  "(\<not> loading a \<and> user a = None \<and> \<not> list_ex is_auth_change evs \<longrightarrow>
      render (auth (run E evs (mount a))) (st (run E evs (mount a))) = Nothing \<and>
      filter (\<lambda>c. c = to_landing) (trace (run E evs (mount a))) = [to_landing])
   \<and> (mounted (run E pre (mount a0)) \<and> \<not> same_deps (auth (run E pre (mount a0))) a \<and>
       \<not> loading a \<and> user a = None \<and> \<not> list_ex is_auth_change evs \<longrightarrow>
      render (auth (run E (pre @ AuthChanged a # evs) (mount a0)))
             (st (run E (pre @ AuthChanged a # evs) (mount a0))) = Nothing \<and>
      filter (\<lambda>c. c = to_landing) (trace (run E (pre @ AuthChanged a # evs) (mount a0))) =
        filter (\<lambda>c. c = to_landing) (trace (run E pre (mount a0))) @ [to_landing])
   \<and> (\<not> loading b \<and> user b \<noteq> None \<and> \<not> list_ex is_home_auth_change hevs \<longrightarrow>
      home_render (home_run hevs (home_mount b q)) = HomeNothing \<and>
      filter is_home_push (home_trace (home_run hevs (home_mount b q))) = [to_dashboard])
   \<and> (\<not> same_deps (home_auth (home_run hpre (home_mount b0 q))) b \<and>
       \<not> loading b \<and> user b \<noteq> None \<and> \<not> list_ex is_home_auth_change hevs \<longrightarrow>
      home_render (home_run (hpre @ HomeAuthChanged b # hevs) (home_mount b0 q)) = HomeNothing \<and>
      filter is_home_push
        (home_trace (home_run (hpre @ HomeAuthChanged b # hevs) (home_mount b0 q))) =
        filter is_home_push (home_trace (home_run hpre (home_mount b0 q))) @ [to_dashboard])"
proof (intro conjI impI)
  assume h: "\<not> loading a \<and> user a = None \<and> \<not> list_ex is_auth_change evs"
  then have "auth (run E evs (mount a)) = a"
    by (simp add: auth_run mount_def)
  with h show "render (auth (run E evs (mount a))) (st (run E evs (mount a))) = Nothing"
    by (simp add: render_gate)
  from h show "filter (\<lambda>c. c = to_landing) (trace (run E evs (mount a))) = [to_landing]"
    by (simp add: landing_run timers_inv_mount mount_landing)
next
  assume h: "mounted (run E pre (mount a0)) \<and> \<not> same_deps (auth (run E pre (mount a0))) a \<and>
       \<not> loading a \<and> user a = None \<and> \<not> list_ex is_auth_change evs"
  define p where "p = run E pre (mount a0)"
  have inv: "timers_inv (step E (AuthChanged a) p)"
    by (simp add: p_def timers_inv_step timers_inv_run timers_inv_mount)
  have eq: "run E (pre @ AuthChanged a # evs) (mount a0) = run E evs (step E (AuthChanged a) p)"
    by (simp add: run_append p_def)
  have au: "auth (run E evs (step E (AuthChanged a) p)) = a"
    using h by (simp add: auth_run step_AuthChanged p_def)
  from h show "render (auth (run E (pre @ AuthChanged a # evs) (mount a0)))
             (st (run E (pre @ AuthChanged a # evs) (mount a0))) = Nothing"
    by (simp add: eq au render_gate)
  from h show "filter (\<lambda>c. c = to_landing) (trace (run E (pre @ AuthChanged a # evs) (mount a0))) =
        filter (\<lambda>c. c = to_landing) (trace (run E pre (mount a0))) @ [to_landing]"
    unfolding eq using inv
    by (simp add: landing_run) (simp add: step_AuthChanged p_def redirect_effect_def to_landing_def)
next
  assume h: "\<not> loading b \<and> user b \<noteq> None \<and> \<not> list_ex is_home_auth_change hevs"
  then have "home_auth (home_run hevs (home_mount b q)) = b"
    by (simp add: home_auth_run home_mount_def)
  with h show "home_render (home_run hevs (home_mount b q)) = HomeNothing"
    by (simp add: home_render_def)
  from h show "filter is_home_push (home_trace (home_run hevs (home_mount b q))) = [to_dashboard]"
    by (simp add: home_push_run home_mount_pushes)
next
  assume h: "\<not> same_deps (home_auth (home_run hpre (home_mount b0 q))) b \<and>
       \<not> loading b \<and> user b \<noteq> None \<and> \<not> list_ex is_home_auth_change hevs"
  define g where "g = home_run hpre (home_mount b0 q)"
  have m: "home_mounted g"
    by (simp add: g_def home_mount_def)
  have eq: "home_run (hpre @ HomeAuthChanged b # hevs) (home_mount b0 q) =
      home_run hevs (home_step (HomeAuthChanged b) g)"
    by (simp add: home_run_append g_def)
  have "home_auth (home_run hevs (home_step (HomeAuthChanged b) g)) = b"
    using h m by (simp add: home_auth_run home_auth_step)
  with h show "home_render (home_run (hpre @ HomeAuthChanged b # hevs) (home_mount b0 q)) = HomeNothing"
    by (simp add: eq home_render_def)
  from h m show "filter is_home_push
        (home_trace (home_run (hpre @ HomeAuthChanged b # hevs) (home_mount b0 q))) =
        filter is_home_push (home_trace (home_run hpre (home_mount b0 q))) @ [to_dashboard]"
    by (simp add: eq home_push_run home_step_auth_pushes flip: g_def)
qed

theorem session_gate_witness:
  "\<not> loading signed_out \<and> user signed_out = None \<and> \<not> loading signed_in \<and>
   user signed_in \<noteq> None \<and> loading resolving \<and>
   render (auth (run env0 [SubmitPressed, TimerFired] (mount signed_out)))
          (st (run env0 [SubmitPressed, TimerFired] (mount signed_out))) = Nothing \<and>
   filter (\<lambda>c. c = to_landing) (trace (run env0 [SubmitPressed, TimerFired] (mount signed_out))) =
     [to_landing] \<and>
   filter (\<lambda>c. c = to_landing)
     (trace (run env0 ([] @ AuthChanged signed_out # [SubmitPressed, TimerFired])
        (mount resolving))) =
     filter (\<lambda>c. c = to_landing) (trace (run env0 [] (mount resolving))) @ [to_landing] \<and>
   home_render (home_run [SignInClicked, StatsSettled (Responded ok_response)]
     (home_mount signed_in None)) = HomeNothing \<and>
   filter is_home_push (home_trace (home_run [SignInClicked, StatsSettled (Responded ok_response)]
     (home_mount signed_in None))) = [to_dashboard] \<and>
   filter is_home_push
     (home_trace (home_run ([] @ HomeAuthChanged signed_in #
        [SignInClicked, StatsSettled (Responded ok_response)]) (home_mount resolving None))) =
     filter is_home_push (home_trace (home_run [] (home_mount resolving None))) @ [to_dashboard]"
proof -
  have a: "\<not> loading signed_out" "user signed_out = None" "\<not> loading signed_in"
    "user signed_in \<noteq> None" "loading resolving"
    by (simp_all add: signed_out_def signed_in_def resolving_def)
  have b: "mounted (run env0 [] (mount resolving))"
    "\<not> same_deps (auth (run env0 [] (mount resolving))) signed_out"
    "\<not> same_deps (home_auth (home_run [] (home_mount resolving None))) signed_in"
    by (simp_all add: mount_def home_mount_def same_deps_def signed_out_def signed_in_def
        resolving_def)
  have c: "\<not> list_ex is_auth_change [SubmitPressed, TimerFired]"
    "\<not> list_ex is_home_auth_change [SignInClicked, StatsSettled (Responded ok_response)]"
    by simp_all
  from session_gate [where a = signed_out and evs = "[SubmitPressed, TimerFired]" and E = env0
      and pre = "[]" and ?a0.0 = resolving and b = signed_in
      and hevs = "[SignInClicked, StatsSettled (Responded ok_response)]" and q = None
      and hpre = "[]" and ?b0.0 = resolving] a b c
  show ?thesis by blast
qed

end
